theory Spec2Isabelle
  imports Complex_Main "HOL-Library.Product_Lexorder"
begin

section \<open>Errors and random generators\<close>

text \<open>
  Exceptions of the Python program are values of \<open>error\<close>; a function that can raise
  returns \<open>error + 'a\<close> with \<open>Inl\<close> for the exception.
\<close>

datatype error = ValueError | ZeroDivisionError | IndexError | RuntimeError

text \<open>
  The program draws its random numbers from two process-wide generators: numpy's
  \<open>np.random\<close> (used by scipy's \<open>rvs\<close>, \<open>np.random.normal\<close> and
  \<open>np.random.uniform\<close>) and the standard library's \<open>random\<close> (used by
  \<open>random.random\<close> and \<open>random.randint\<close>). Each is a deterministic stream: a
  position and the value that a draw of each kind yields at that position. A draw
  advances the position by one. Floats are modelled as reals.
\<close>

record np_random =
  np_t :: "nat \<Rightarrow> real"
  np_unif :: "nat \<Rightarrow> real"
  np_norm :: "nat \<Rightarrow> real"
  np_pos :: nat

record py_random =
  py_unif :: "nat \<Rightarrow> real"
  py_int :: "nat \<Rightarrow> nat"
  py_pos :: nat

text \<open>The parameters of a \<open>TruncatedTDistribution\<close>; the first three are those of
  the frozen \<open>stats.t(df, loc, scale)\<close> it holds, whose construction checks nothing.\<close>

record TruncatedTDistribution =
  df :: real
  loc :: real
  scale :: real
  lower :: real
  upper :: real

text \<open>\<open>t_dist.rvs(size=n)\<close>: scipy raises ValueError (a domain error in the
  arguments) unless \<open>df > 0\<close> and \<open>scale \<ge> 0\<close>, and otherwise returns \<open>n\<close>
  variates of the unrestricted distribution.\<close>

definition t_rvs :: "TruncatedTDistribution \<Rightarrow> np_random \<Rightarrow> nat \<Rightarrow> error + (real list \<times> np_random)" where
  "t_rvs d g n =
     (if df d \<le> 0 \<or> scale d < 0 then Inl ValueError
      else Inr (map (np_t g) [np_pos g ..< np_pos g + n], g\<lparr>np_pos := np_pos g + n\<rparr>))"

text \<open>\<open>np.random.uniform(low, high, n)\<close>: \<open>low + (high - low) * u\<close> for each raw
  draw \<open>u\<close>, which numpy takes from the half-open unit interval.\<close>

definition np_uniform :: "np_random \<Rightarrow> real \<Rightarrow> real \<Rightarrow> nat \<Rightarrow> real list \<times> np_random" where
  "np_uniform g low high n =
     (map (\<lambda>i. low + (high - low) * np_unif g i) [np_pos g ..< np_pos g + n],
      g\<lparr>np_pos := np_pos g + n\<rparr>)"


text \<open>\<open>np.random.normal(mean, std, 1)[0]\<close>: numpy raises ValueError for a negative
  standard deviation.\<close>

definition np_normal :: "np_random \<Rightarrow> real \<Rightarrow> real \<Rightarrow> error + (real \<times> np_random)" where
  "np_normal g m s =
     (if s < 0 then Inl ValueError
      else Inr (m + s * np_norm g (np_pos g), g\<lparr>np_pos := np_pos g + 1\<rparr>))"

text \<open>\<open>random.random()\<close> and \<open>random.randint(a, b)\<close>; the latter raises ValueError
  on an empty range and otherwise returns an integer of \<open>[a, b]\<close>.\<close>

definition py_random_random :: "py_random \<Rightarrow> real \<times> py_random" where
  "py_random_random g = (py_unif g (py_pos g), g\<lparr>py_pos := py_pos g + 1\<rparr>)"

definition py_randint :: "py_random \<Rightarrow> int \<Rightarrow> int \<Rightarrow> error + (int \<times> py_random)" where
  "py_randint g a b =
     (if b < a then Inl ValueError
      else Inr (a + int (py_int g (py_pos g) mod nat (b - a + 1)),
                g\<lparr>py_pos := py_pos g + 1\<rparr>))"

section \<open>utils/distributions.py\<close>

text \<open>Python's \<open>xs[:n]\<close>.\<close>

definition slice_to :: "'a list \<Rightarrow> int \<Rightarrow> 'a list" where
  "slice_to xs n = (if 0 \<le> n then take (nat n) xs else take (length xs - nat (- n)) xs)"

text \<open>The rejection loop of \<open>TruncatedTDistribution.sample\<close>.\<close>

function sample_loop ::
  "TruncatedTDistribution \<Rightarrow> int \<Rightarrow> int \<Rightarrow> real list \<Rightarrow> int \<Rightarrow> np_random
     \<Rightarrow> error + (real list \<times> int \<times> np_random)" where
  "sample_loop d sz max_attempts samples attempts g =
     (if int (length samples) < sz \<and> attempts < max_attempts then
        (let batch_size = (sz - int (length samples)) * 2
         in case t_rvs d g (nat batch_size) of
              Inl e \<Rightarrow> Inl e
            | Inr (candidates, g') \<Rightarrow>
                (let valid = filter (\<lambda>c. lower d \<le> c \<and> c \<le> upper d) candidates
                 in sample_loop d sz max_attempts (samples @ valid) (attempts + batch_size) g'))
      else Inr (samples, attempts, g))"
  by pat_completeness auto
termination
  by (relation "measure (\<lambda>(d, sz, max_attempts, samples, attempts, g).
        nat (max_attempts - attempts))") auto

definition sample ::
  "TruncatedTDistribution \<Rightarrow> int \<Rightarrow> np_random \<Rightarrow> error + (real list \<times> np_random)" where
  "sample d sz g =
     (let max_attempts = sz * 100
      in case sample_loop d sz max_attempts [] 0 g of
           Inl e \<Rightarrow> Inl e
         | Inr (samples, attempts, g1) \<Rightarrow>
             if int (length samples) < sz then
               (let remaining = sz - int (length samples);
                    (uniform_samples, g2) = np_uniform g1 (lower d) (upper d) (nat remaining)
                in Inr (slice_to (samples @ uniform_samples) sz, g2))
             else Inr (slice_to samples sz, g1))"

text \<open>\<open>float(self.sample(1)[0])\<close>: indexing an empty array raises IndexError.\<close>

definition sample_one :: "TruncatedTDistribution \<Rightarrow> np_random \<Rightarrow> error + (real \<times> np_random)" where
  "sample_one d g =
     (case sample d 1 g of
        Inl e \<Rightarrow> Inl e
      | Inr ([], g') \<Rightarrow> Inl IndexError
      | Inr (x # xs, g') \<Rightarrow> Inr (x, g'))"

record ServiceTimeDistribution =
  mean :: real
  std :: real
  min_time :: real

text \<open>\<open>ServiceTimeDistribution.sample_one\<close>.\<close>

definition service_sample_one ::
  "ServiceTimeDistribution \<Rightarrow> np_random \<Rightarrow> error + (real \<times> np_random)" where
  "service_sample_one d g =
     (case np_normal g (mean d) (std d) of
        Inl e \<Rightarrow> Inl e
      | Inr (x, g') \<Rightarrow> Inr (max x (min_time d), g'))"

section \<open>models/passenger.py\<close>

datatype CheckinType = ONLINE | KIOSK | COUNTER

datatype BaggageDropType = NONE | COUNTER | SELF

text \<open>
  \<open>PassengerGroup\<close>. The list of individual \<open>Passenger\<close> objects that
  \<open>__post_init__\<close> derives from \<open>group_id\<close> and \<open>group_size\<close> is never read by the
  simulation and is left out.
\<close>

record PassengerGroup =
  group_id :: int
  group_size :: int
  arrival_time :: real
  departure_time :: real
  checkin_type :: CheckinType
  has_baggage :: bool
  baggage_drop_type :: BaggageDropType
  checkin_queue_enter :: "real option"
  checkin_start :: "real option"
  checkin_end :: "real option"
  baggage_counter_queue_enter :: "real option"
  baggage_counter_start :: "real option"
  baggage_counter_end :: "real option"
  tag_queue_enter :: "real option"
  tag_start :: "real option"
  tag_end :: "real option"
  drop_queue_enter :: "real option"
  drop_start :: "real option"
  drop_end :: "real option"
  security_arrival :: "real option"
  current_x :: real
  current_y :: real
  current_node :: string

text \<open>The dataclass constructor with its defaults.\<close>

definition new_PassengerGroup ::
  "int \<Rightarrow> int \<Rightarrow> real \<Rightarrow> real \<Rightarrow> CheckinType \<Rightarrow> bool \<Rightarrow> BaggageDropType \<Rightarrow> PassengerGroup" where
  "new_PassengerGroup gid gs arr dep ct hb bt =
     \<lparr>group_id = gid, group_size = gs, arrival_time = arr, departure_time = dep,
      checkin_type = ct, has_baggage = hb, baggage_drop_type = bt,
      checkin_queue_enter = None, checkin_start = None, checkin_end = None,
      baggage_counter_queue_enter = None, baggage_counter_start = None,
      baggage_counter_end = None,
      tag_queue_enter = None, tag_start = None, tag_end = None,
      drop_queue_enter = None, drop_start = None, drop_end = None,
      security_arrival = None,
      current_x = 0, current_y = 0, current_node = ''source''\<rparr>"

text \<open>
  \<open>PassengerGroupFactory\<close>. Its check-in probabilities are stored normalised; the
  fields carry the prefix \<open>f_\<close> to keep them apart from the configuration's.
\<close>

record PassengerGroupFactory =
  f_p_online :: real
  f_p_kiosk :: real
  f_p_counter :: real
  f_p_baggage :: real
  f_p_baggage_counter :: real
  f_p_single :: real
  multi_min :: int
  multi_max :: int
  next_group_id :: int

text \<open>\<open>PassengerGroupFactory.__init__\<close>: dividing by a zero total raises
  ZeroDivisionError.\<close>

definition PassengerGroupFactory_init ::
  "real \<Rightarrow> real \<Rightarrow> real \<Rightarrow> real \<Rightarrow> real \<Rightarrow> real \<Rightarrow> int \<Rightarrow> int
     \<Rightarrow> error + PassengerGroupFactory" where
  "PassengerGroupFactory_init po pk pc pb pbc ps mmin mmax =
     (let total = po + pk + pc
      in if total = 0 then Inl ZeroDivisionError
         else Inr \<lparr>f_p_online = po / total, f_p_kiosk = pk / total, f_p_counter = pc / total,
                   f_p_baggage = pb, f_p_baggage_counter = pbc, f_p_single = ps,
                   multi_min = mmin, multi_max = mmax, next_group_id = 0\<rparr>)"

text \<open>\<open>PassengerGroupFactory.create_group\<close>, drawing from the \<open>random\<close> module in
  the order of the source.\<close>

definition create_group ::
  "PassengerGroupFactory \<Rightarrow> real \<Rightarrow> real \<Rightarrow> py_random
     \<Rightarrow> error + (PassengerGroup \<times> PassengerGroupFactory \<times> py_random)" where
  "create_group f arr dep r0 =
     (let gid = next_group_id f;
          f' = f\<lparr>next_group_id := next_group_id f + 1\<rparr>;
          (u1, r1) = py_random_random r0
      in case (if u1 < f_p_single f then Inr (1, r1)
               else py_randint r1 (multi_min f) (multi_max f)) of
           Inl e \<Rightarrow> Inl e
         | Inr (gs, r2) \<Rightarrow>
             (let (rand, r3) = py_random_random r2;
                  ct = (if rand < f_p_online f then ONLINE
                        else if rand < f_p_online f + f_p_kiosk f then KIOSK
                        else CheckinType.COUNTER);
                  (u3, r4) = py_random_random r3;
                  hb = (u3 < f_p_baggage f);
                  (bt, r5) = (if hb then
                                (let (u4, r5) = py_random_random r4
                                 in (if u4 < f_p_baggage_counter f
                                     then BaggageDropType.COUNTER else SELF, r5))
                              else (NONE, r4))
              in Inr (new_PassengerGroup gid gs arr dep ct hb bt, f', r5)))"

section \<open>simulation/arrival.py\<close>

record DemandSlot =
  start_minutes :: real
  end_minutes :: real
  pax_count :: int

record ArrivalGenerator =
  group_factory :: PassengerGroupFactory
  arrival_dist :: TruncatedTDistribution
  arrival_range_max :: real
  generated_groups :: "PassengerGroup list"

definition ArrivalGenerator_init ::
  "PassengerGroupFactory \<Rightarrow> real \<Rightarrow> real \<Rightarrow> real \<Rightarrow> real \<Rightarrow> real \<Rightarrow> ArrivalGenerator" where
  "ArrivalGenerator_init f a_df a_mean a_scale a_min a_max =
     \<lparr>group_factory = f,
      arrival_dist = \<lparr>df = a_df, loc = a_mean, scale = a_scale, lower = a_min, upper = a_max\<rparr>,
      arrival_range_max = a_max,
      generated_groups = []\<rparr>"

text \<open>
  The \<open>while remaining_pax > 0\<close> loop of \<open>generate_arrivals_for_slot\<close>. The state is
  the generator (whose factory hands out the group ids) and the two random generators.
  The loop need not end (a factory that can produce groups of size zero), so it is a
  partial function: \<open>None\<close> is the loop that never returns.
\<close>

partial_function (option) generate_loop ::
  "DemandSlot \<Rightarrow> int \<Rightarrow> PassengerGroup list \<Rightarrow> ArrivalGenerator \<times> np_random \<times> py_random
     \<Rightarrow> (error + (PassengerGroup list \<times> ArrivalGenerator \<times> np_random \<times> py_random)) option"
  where
  "generate_loop slot remaining_pax groups st =
     (if remaining_pax > 0 then
        (case st of (gen, np, py) \<Rightarrow>
           (let departure_time_min = (start_minutes slot + end_minutes slot) / 2
            in case sample_one (arrival_dist gen) np of
                 Inl e \<Rightarrow> Some (Inl e)
               | Inr (min_before_departure, np') \<Rightarrow>
                   (let arrival_time_min = max 0 (departure_time_min - min_before_departure);
                        arrival_time_sec = arrival_time_min * 60;
                        departure_time_sec = departure_time_min * 60
                    in case create_group (group_factory gen) arrival_time_sec
                              departure_time_sec py of
                         Inl e \<Rightarrow> Some (Inl e)
                       | Inr (grp, f', py') \<Rightarrow>
                           generate_loop slot (remaining_pax - group_size grp)
                             (groups @ [grp]) (gen\<lparr>group_factory := f'\<rparr>, np', py'))))
      else Some (Inr (groups, st)))"

declare generate_loop.simps [code]

definition generate_arrivals_for_slot ::
  "DemandSlot \<Rightarrow> ArrivalGenerator \<times> np_random \<times> py_random
     \<Rightarrow> (error + (PassengerGroup list \<times> ArrivalGenerator \<times> np_random \<times> py_random)) option"
  where
  "generate_arrivals_for_slot slot st = generate_loop slot (pax_count slot) [] st"

text \<open>The \<open>for slot in demand_slots\<close> loop of \<open>generate_all_arrivals\<close>.\<close>

fun generate_slots ::
  "DemandSlot list \<Rightarrow> PassengerGroup list \<Rightarrow> ArrivalGenerator \<times> np_random \<times> py_random
     \<Rightarrow> (error + (PassengerGroup list \<times> ArrivalGenerator \<times> np_random \<times> py_random)) option"
  where
  "generate_slots [] all_groups st = Some (Inr (all_groups, st))"
| "generate_slots (slot # slots) all_groups st =
     (if pax_count slot > 0 then
        (case generate_arrivals_for_slot slot st of
           None \<Rightarrow> None
         | Some (Inl e) \<Rightarrow> Some (Inl e)
         | Some (Inr (groups, st')) \<Rightarrow> generate_slots slots (all_groups @ groups) st')
      else generate_slots slots all_groups st)"

text \<open>\<open>list.sort(key=...)\<close> is stable, as \<open>sort_key\<close> is.\<close>

definition generate_all_arrivals ::
  "DemandSlot list \<Rightarrow> ArrivalGenerator \<times> np_random \<times> py_random
     \<Rightarrow> (error + (PassengerGroup list \<times> ArrivalGenerator \<times> np_random \<times> py_random)) option"
  where
  "generate_all_arrivals demand_slots st =
     (case generate_slots demand_slots [] st of
        None \<Rightarrow> None
      | Some (Inl e) \<Rightarrow> Some (Inl e)
      | Some (Inr (all_groups, (gen, np, py))) \<Rightarrow>
          (let sorted_groups = sort_key arrival_time all_groups
           in Some (Inr (sorted_groups, (gen\<lparr>generated_groups := sorted_groups\<rparr>, np, py)))))"


section \<open>simpy.Resource\<close>

text \<open>
  The station is a \<open>simpy.Resource\<close>, a library class. Its state is the list
  \<open>users\<close> of granted requests and the list \<open>put_queue\<close> (the attribute \<open>queue\<close>)
  of pending ones; a request is identified by the id of the group that made it.
  \<^item> The constructor raises ValueError unless the capacity is positive.
  \<^item> \<open>request()\<close> appends the new request to \<open>put_queue\<close> and then runs
    \<open>_trigger_put\<close>, which looks at the head of \<open>put_queue\<close> only and moves it to
    \<open>users\<close> when a slot is free; the granted request's event is then scheduled.
  \<^item> \<open>release(req)\<close> removes \<open>req\<close> from \<open>users\<close> at once and schedules a release
    event; \<open>_trigger_put\<close> runs again when the scheduler processes that event.
\<close>

record Resource =
  res_capacity :: int
  users :: "int list"
  put_queue :: "int list"

definition Resource_init :: "int \<Rightarrow> error + Resource" where
  "Resource_init cap =
     (if cap \<le> 0 then Inl ValueError
      else Inr \<lparr>res_capacity = cap, users = [], put_queue = []\<rparr>)"

definition trigger_put :: "Resource \<Rightarrow> Resource \<times> int option" where
  "trigger_put r =
     (case put_queue r of
        [] \<Rightarrow> (r, None)
      | req # rest \<Rightarrow>
          if int (length (users r)) < res_capacity r
          then (r\<lparr>users := users r @ [req], put_queue := rest\<rparr>, Some req)
          else (r, None))"

definition resource_request :: "Resource \<Rightarrow> int \<Rightarrow> Resource \<times> int option" where
  "resource_request r req = trigger_put (r\<lparr>put_queue := put_queue r @ [req]\<rparr>)"

definition resource_release :: "Resource \<Rightarrow> int \<Rightarrow> Resource" where
  "resource_release r req = r\<lparr>users := remove1 req (users r)\<rparr>"

section \<open>models/resources.py\<close>

record QueueSnapshot =
  snap_time :: real
  queue_length :: int
  queue_pax_count :: int
  in_service :: int

record AreaOccupancy =
  occ_time :: real
  area_name :: string
  group_count :: int
  pax_count_a :: int

record MonitoredResource =
  name :: string
  capacity :: int
  resource :: Resource
  queue_history :: "QueueSnapshot list"
  current_queue :: "(int \<times> int) list"

definition MonitoredResource_init :: "string \<Rightarrow> int \<Rightarrow> error + MonitoredResource" where
  "MonitoredResource_init nm cap =
     (case Resource_init cap of
        Inl e \<Rightarrow> Inl e
      | Inr r \<Rightarrow> Inr \<lparr>name = nm, capacity = cap, resource = r, queue_history = [],
                       current_queue = []\<rparr>)"

text \<open>\<open>MonitoredResource._record_snapshot\<close> at virtual time \<open>now\<close>.\<close>

definition record_snapshot :: "real \<Rightarrow> MonitoredResource \<Rightarrow> MonitoredResource" where
  "record_snapshot now m =
     (let queue_groups = int (length (put_queue (resource m)));
          queue_pax = (if queue_groups > 0
                       then sum_list (map snd (take (nat queue_groups) (current_queue m)))
                       else 0)
      in m\<lparr>queue_history := queue_history m @
             [\<lparr>snap_time = now, queue_length = queue_groups, queue_pax_count = queue_pax,
               in_service = int (length (users (resource m)))\<rparr>]\<rparr>)"

text \<open>\<open>MonitoredResource.request\<close>: the snapshot is taken before the simpy request
  is made. The second component is the request that simpy granted, if any.\<close>

definition request ::
  "real \<Rightarrow> MonitoredResource \<Rightarrow> int \<Rightarrow> int \<Rightarrow> MonitoredResource \<times> int option" where
  "request now m gid gs =
     (let m1 = m\<lparr>current_queue := current_queue m @ [(gid, gs)]\<rparr>;
          m2 = record_snapshot now m1;
          (r, granted) = resource_request (resource m2) gid
      in (m2\<lparr>resource := r\<rparr>, granted))"

definition release :: "real \<Rightarrow> MonitoredResource \<Rightarrow> int \<Rightarrow> MonitoredResource" where
  "release now m gid =
     (let m1 = m\<lparr>current_queue := filter (\<lambda>(g, gs). g \<noteq> gid) (current_queue m)\<rparr>;
          m2 = m1\<lparr>resource := resource_release (resource m1) gid\<rparr>
      in record_snapshot now m2)"

text \<open>The scheduler processing a release event of the station.\<close>

definition release_event :: "MonitoredResource \<Rightarrow> MonitoredResource \<times> int option" where
  "release_event m = (let (r, granted) = trigger_put (resource m) in (m\<lparr>resource := r\<rparr>, granted))"

record AirportResources =
  checkin_kiosk :: MonitoredResource
  checkin_counter :: MonitoredResource
  baggage_counter :: MonitoredResource
  tag_kiosk :: MonitoredResource
  drop_point :: MonitoredResource
  area_occupancy_history :: "AreaOccupancy list"
  groups_in_area :: "string \<rightharpoonup> (int \<times> int) list"

definition initial_areas :: "string \<rightharpoonup> (int \<times> int) list" where
  "initial_areas =
     [''checkin_zone'' \<mapsto> [], ''baggage_counter_zone'' \<mapsto> [], ''tag_zone'' \<mapsto> [],
      ''drop_zone'' \<mapsto> [], ''security_front'' \<mapsto> []]"

definition AirportResources_init ::
  "int \<Rightarrow> int \<Rightarrow> int \<Rightarrow> int \<Rightarrow> int \<Rightarrow> error + AirportResources" where
  "AirportResources_init c_kiosk c_counter c_baggage c_tag c_drop =
     (case MonitoredResource_init ''checkin_kiosk'' c_kiosk of Inl e \<Rightarrow> Inl e | Inr r1 \<Rightarrow>
     (case MonitoredResource_init ''checkin_counter'' c_counter of Inl e \<Rightarrow> Inl e | Inr r2 \<Rightarrow>
     (case MonitoredResource_init ''baggage_counter'' c_baggage of Inl e \<Rightarrow> Inl e | Inr r3 \<Rightarrow>
     (case MonitoredResource_init ''tag_kiosk'' c_tag of Inl e \<Rightarrow> Inl e | Inr r4 \<Rightarrow>
     (case MonitoredResource_init ''drop_point'' c_drop of Inl e \<Rightarrow> Inl e | Inr r5 \<Rightarrow>
        Inr \<lparr>checkin_kiosk = r1, checkin_counter = r2, baggage_counter = r3, tag_kiosk = r4,
             drop_point = r5, area_occupancy_history = [], groups_in_area = initial_areas\<rparr>)))))"

definition record_area_occupancy :: "real \<Rightarrow> string \<Rightarrow> AirportResources \<Rightarrow> AirportResources" where
  "record_area_occupancy now area res =
     (case groups_in_area res area of
        None \<Rightarrow> res
      | Some groups \<Rightarrow>
          res\<lparr>area_occupancy_history := area_occupancy_history res @
                [\<lparr>occ_time = now, area_name = area, group_count = int (length groups),
                  pax_count_a = sum_list (map snd groups)\<rparr>]\<rparr>)"

definition enter_area :: "real \<Rightarrow> string \<Rightarrow> int \<Rightarrow> int \<Rightarrow> AirportResources \<Rightarrow> AirportResources" where
  "enter_area now area gid gs res =
     (case groups_in_area res area of
        None \<Rightarrow> res
      | Some groups \<Rightarrow>
          record_area_occupancy now area
            (res\<lparr>groups_in_area := (groups_in_area res)(area \<mapsto> groups @ [(gid, gs)])\<rparr>))"

definition leave_area :: "real \<Rightarrow> string \<Rightarrow> int \<Rightarrow> AirportResources \<Rightarrow> AirportResources" where
  "leave_area now area gid res =
     (case groups_in_area res area of
        None \<Rightarrow> res
      | Some groups \<Rightarrow>
          record_area_occupancy now area
            (res\<lparr>groups_in_area :=
                   (groups_in_area res)(area \<mapsto> filter (\<lambda>(g, gs). g \<noteq> gid) groups)\<rparr>))"

text \<open>
  A station driven from outside: a group requests it, a group releases it, or the
  scheduler processes a pending release event. \<open>drive\<close> runs such a sequence at a
  fixed clock value and collects, in order, the requests that were granted.
\<close>

datatype station_op = Request int int | Release int | ReleaseEvent

fun drive :: "MonitoredResource \<Rightarrow> station_op list \<Rightarrow> MonitoredResource \<times> int list" where
  "drive m [] = (m, [])"
| "drive m (Request gid gs # ops) =
     (let (m', granted) = request 0 m gid gs;
          (m'', later) = drive m' ops
      in (m'', (case granted of None \<Rightarrow> [] | Some g \<Rightarrow> [g]) @ later))"
| "drive m (Release gid # ops) = drive (release 0 m gid) ops"
| "drive m (ReleaseEvent # ops) =
     (let (m', granted) = release_event m;
          (m'', later) = drive m' ops
      in (m'', (case granted of None \<Rightarrow> [] | Some g \<Rightarrow> [g]) @ later))"

fun requested :: "station_op list \<Rightarrow> int list" where
  "requested [] = []"
| "requested (Request gid gs # ops) = gid # requested ops"
| "requested (Release gid # ops) = requested ops"
| "requested (ReleaseEvent # ops) = requested ops"

section \<open>simulation/engine.py: configuration\<close>

record SimulationConfig =
  arrival_df :: real
  arrival_mean_min_before :: real
  arrival_scale :: real
  arrival_range_min :: real
  arrival_range_max_c :: real
  p_online :: real
  p_kiosk :: real
  p_counter :: real
  p_baggage :: real
  p_baggage_counter :: real
  p_single :: real
  group_multi_min :: int
  group_multi_max :: int
  capacity_checkin_kiosk :: int
  capacity_checkin_counter :: int
  capacity_baggage_counter :: int
  capacity_tag_kiosk :: int
  capacity_drop_point :: int
  service_checkin_kiosk_mean :: real
  service_checkin_kiosk_std :: real
  service_checkin_counter_mean :: real
  service_checkin_counter_std :: real
  service_baggage_counter_mean :: real
  service_baggage_counter_std :: real
  service_tag_kiosk_mean :: real
  service_tag_kiosk_std :: real
  service_drop_point_mean :: real
  service_drop_point_std :: real
  sample_interval_sec :: real
  random_seed :: "int option"

text \<open>The defaults of the dataclass.\<close>

definition default_config :: SimulationConfig where
  "default_config =
     \<lparr>arrival_df = 7, arrival_mean_min_before = 70, arrival_scale = 20,
      arrival_range_min = 20, arrival_range_max_c = 120,
      p_online = 3 / 10, p_kiosk = 5 / 10, p_counter = 2 / 10, p_baggage = 5 / 10,
      p_baggage_counter = 4 / 10, p_single = 7 / 10,
      group_multi_min = 2, group_multi_max = 4,
      capacity_checkin_kiosk = 8, capacity_checkin_counter = 6,
      capacity_baggage_counter = 4, capacity_tag_kiosk = 4, capacity_drop_point = 4,
      service_checkin_kiosk_mean = 70, service_checkin_kiosk_std = 15,
      service_checkin_counter_mean = 180, service_checkin_counter_std = 40,
      service_baggage_counter_mean = 150, service_baggage_counter_std = 35,
      service_tag_kiosk_mean = 45, service_tag_kiosk_std = 10,
      service_drop_point_mean = 120, service_drop_point_std = 30,
      sample_interval_sec = 10, random_seed = None\<rparr>"

text \<open>
  \<open>SimulationEngine.__init__\<close> stores its arguments and checks nothing. The node
  table maps a node name to its coordinates (\<open>node.get("x", 0)\<close>, \<open>node.get("y", 0)\<close>);
  the area polygons are not used by the kernel.
\<close>

record SimulationEngine =
  config :: SimulationConfig
  nodes :: "string \<rightharpoonup> real \<times> real"


section \<open>simulation/processes.py and the scheduler\<close>

text \<open>
  The five station visits of \<open>PassengerProcess.run\<close> are the same block of code with
  different fields; \<open>stage\<close> names the block, and the functions below give its
  station, its node, its area, its service-time distribution and its three timestamps.
\<close>

datatype stage = CheckinKiosk | CheckinCounter | BaggageCounter | TagKiosk | DropPoint

fun stage_node :: "stage \<Rightarrow> string" where
  "stage_node CheckinKiosk = ''checkin_kiosk''"
| "stage_node CheckinCounter = ''checkin_counter''"
| "stage_node BaggageCounter = ''baggage_counter''"
| "stage_node TagKiosk = ''tag_kiosk''"
| "stage_node DropPoint = ''drop_point''"

fun stage_area :: "stage \<Rightarrow> string" where
  "stage_area CheckinKiosk = ''checkin_zone''"
| "stage_area CheckinCounter = ''checkin_zone''"
| "stage_area BaggageCounter = ''baggage_counter_zone''"
| "stage_area TagKiosk = ''tag_zone''"
| "stage_area DropPoint = ''drop_zone''"

fun get_station :: "stage \<Rightarrow> AirportResources \<Rightarrow> MonitoredResource" where
  "get_station CheckinKiosk res = checkin_kiosk res"
| "get_station CheckinCounter res = checkin_counter res"
| "get_station BaggageCounter res = baggage_counter res"
| "get_station TagKiosk res = tag_kiosk res"
| "get_station DropPoint res = drop_point res"

fun set_station :: "stage \<Rightarrow> MonitoredResource \<Rightarrow> AirportResources \<Rightarrow> AirportResources" where
  "set_station CheckinKiosk m res = res\<lparr>checkin_kiosk := m\<rparr>"
| "set_station CheckinCounter m res = res\<lparr>checkin_counter := m\<rparr>"
| "set_station BaggageCounter m res = res\<lparr>baggage_counter := m\<rparr>"
| "set_station TagKiosk m res = res\<lparr>tag_kiosk := m\<rparr>"
| "set_station DropPoint m res = res\<lparr>drop_point := m\<rparr>"

text \<open>\<open>SimulationEngine._create_service_times\<close>; \<open>min_time\<close> has its default 1.0.\<close>

fun service_times :: "SimulationConfig \<Rightarrow> stage \<Rightarrow> ServiceTimeDistribution" where
  "service_times cfg CheckinKiosk =
     \<lparr>mean = service_checkin_kiosk_mean cfg, std = service_checkin_kiosk_std cfg, min_time = 1\<rparr>"
| "service_times cfg CheckinCounter =
     \<lparr>mean = service_checkin_counter_mean cfg, std = service_checkin_counter_std cfg, min_time = 1\<rparr>"
| "service_times cfg BaggageCounter =
     \<lparr>mean = service_baggage_counter_mean cfg, std = service_baggage_counter_std cfg, min_time = 1\<rparr>"
| "service_times cfg TagKiosk =
     \<lparr>mean = service_tag_kiosk_mean cfg, std = service_tag_kiosk_std cfg, min_time = 1\<rparr>"
| "service_times cfg DropPoint =
     \<lparr>mean = service_drop_point_mean cfg, std = service_drop_point_std cfg, min_time = 1\<rparr>"

fun set_queue_enter :: "stage \<Rightarrow> real \<Rightarrow> PassengerGroup \<Rightarrow> PassengerGroup" where
  "set_queue_enter CheckinKiosk t g = g\<lparr>checkin_queue_enter := Some t\<rparr>"
| "set_queue_enter CheckinCounter t g = g\<lparr>checkin_queue_enter := Some t\<rparr>"
| "set_queue_enter BaggageCounter t g = g\<lparr>baggage_counter_queue_enter := Some t\<rparr>"
| "set_queue_enter TagKiosk t g = g\<lparr>tag_queue_enter := Some t\<rparr>"
| "set_queue_enter DropPoint t g = g\<lparr>drop_queue_enter := Some t\<rparr>"

fun set_start :: "stage \<Rightarrow> real \<Rightarrow> PassengerGroup \<Rightarrow> PassengerGroup" where
  "set_start CheckinKiosk t g = g\<lparr>checkin_start := Some t\<rparr>"
| "set_start CheckinCounter t g = g\<lparr>checkin_start := Some t\<rparr>"
| "set_start BaggageCounter t g = g\<lparr>baggage_counter_start := Some t\<rparr>"
| "set_start TagKiosk t g = g\<lparr>tag_start := Some t\<rparr>"
| "set_start DropPoint t g = g\<lparr>drop_start := Some t\<rparr>"

fun set_end :: "stage \<Rightarrow> real \<Rightarrow> PassengerGroup \<Rightarrow> PassengerGroup" where
  "set_end CheckinKiosk t g = g\<lparr>checkin_end := Some t\<rparr>"
| "set_end CheckinCounter t g = g\<lparr>checkin_end := Some t\<rparr>"
| "set_end BaggageCounter t g = g\<lparr>baggage_counter_end := Some t\<rparr>"
| "set_end TagKiosk t g = g\<lparr>tag_end := Some t\<rparr>"
| "set_end DropPoint t g = g\<lparr>drop_end := Some t\<rparr>"

text \<open>\<open>PassengerProcess._update_position\<close>.\<close>

definition update_position ::
  "(string \<rightharpoonup> real \<times> real) \<Rightarrow> string \<Rightarrow> PassengerGroup \<Rightarrow> PassengerGroup" where
  "update_position nds node_name g =
     (case nds node_name of
        None \<Rightarrow> g
      | Some (x, y) \<Rightarrow> g\<lparr>current_x := x, current_y := y, current_node := node_name\<rparr>)"

text \<open>
  A process is a generator suspended at a \<open>yield\<close>. The program counter of a group's
  process names the \<open>yield\<close> it waits at: the start of the generator, the delay of an
  online check-in, the request or the service delay of a station visit, the delay in
  front of security, or the end of the generator.
\<close>

datatype pc = AtStart | OnlineDelay | Requesting stage | InService stage | SecurityDelay | Finished

record process =
  at_yield :: pc
  the_group :: PassengerGroup

datatype proc_id = ArrivalProc | SamplerProc | GroupProc int

text \<open>
  The events of the simpy queue: the resumption of a process (its initialisation, the
  end of its timeout, or the grant of its request), the release event of a station,
  the termination event of a process (nothing waits for it), and the \<open>until\<close> event
  of \<open>env.run\<close>.
\<close>

datatype event = Resume proc_id | StationRelease stage | ProcessEnd proc_id | Until

datatype arrival_state =
  ArrivalInit "PassengerGroup list"
| ArrivalWaiting PassengerGroup "PassengerGroup list"
| ArrivalDone

record PositionSnapshot =
  pos_time :: real
  pos_groups :: "(int \<times> real \<times> real \<times> int \<times> string) list"

datatype area_event = Enter string int | Leave string int

text \<open>
  The state of a run: the clock and event queue of the simpy environment (the queue
  is kept sorted by \<open>(time, priority, event id)\<close>, the order in which simpy's heap
  hands the events out), the resources, the processes with the group each one owns,
  the insertion-ordered keys of \<open>_active_groups\<close>, the ids of the completed groups in
  order of completion, the position snapshots, and numpy's generator. \<open>area_log\<close> is
  not in the program: it records the calls of \<open>enter_area\<close> and \<open>leave_area\<close>.
\<close>

record sim =
  now :: real
  eid :: nat
  event_queue :: "((real \<times> nat \<times> nat) \<times> event) list"
  resources :: AirportResources
  procs :: "int \<rightharpoonup> process"
  arrival :: arrival_state
  active_groups :: "int list"
  completed :: "int list"
  position_snapshots :: "PositionSnapshot list"
  np_state :: np_random
  area_log :: "area_event list"

definition URGENT :: nat where "URGENT = 0"
definition NORMAL :: nat where "NORMAL = 1"

text \<open>\<open>Environment.schedule\<close>.\<close>

definition schedule :: "nat \<Rightarrow> real \<Rightarrow> event \<Rightarrow> sim \<Rightarrow> sim" where
  "schedule priority delay ev s =
     s\<lparr>event_queue := insort_key fst ((now s + delay, priority, eid s), ev) (event_queue s),
       eid := eid s + 1\<rparr>"

text \<open>\<open>env.timeout(delay)\<close> followed by the \<open>yield\<close> of process \<open>p\<close>: a negative
  delay raises ValueError.\<close>

definition timeout :: "real \<Rightarrow> proc_id \<Rightarrow> sim \<Rightarrow> error + sim" where
  "timeout delay p s = (if delay < 0 then Inl ValueError else Inr (schedule NORMAL delay (Resume p) s))"

definition set_proc :: "int \<Rightarrow> pc \<Rightarrow> PassengerGroup \<Rightarrow> sim \<Rightarrow> sim" where
  "set_proc gid c g s = s\<lparr>procs := (procs s)(gid \<mapsto> \<lparr>at_yield = c, the_group = g\<rparr>)\<rparr>"

definition do_enter_area :: "string \<Rightarrow> PassengerGroup \<Rightarrow> sim \<Rightarrow> sim" where
  "do_enter_area area g s =
     s\<lparr>resources := enter_area (now s) area (group_id g) (group_size g) (resources s),
       area_log := area_log s @ [Enter area (group_id g)]\<rparr>"

definition do_leave_area :: "string \<Rightarrow> PassengerGroup \<Rightarrow> sim \<Rightarrow> sim" where
  "do_leave_area area g s =
     s\<lparr>resources := leave_area (now s) area (group_id g) (resources s),
       area_log := area_log s @ [Leave area (group_id g)]\<rparr>"

text \<open>A granted request is an event that resumes the process of the group it belongs to.\<close>

definition schedule_grant :: "int option \<Rightarrow> sim \<Rightarrow> sim" where
  "schedule_grant granted s =
     (case granted of None \<Rightarrow> s | Some gid \<Rightarrow> schedule NORMAL 0 (Resume (GroupProc gid)) s)"

text \<open>The security gate block up to its \<open>yield\<close>.\<close>

definition enter_security :: "SimulationEngine \<Rightarrow> PassengerGroup \<Rightarrow> sim \<Rightarrow> error + sim" where
  "enter_security eng g0 s0 =
     (let g = update_position (nodes eng) ''security_gate'' g0;
          s1 = do_enter_area ''security_front'' g s0
      in timeout 10 (GroupProc (group_id g)) (set_proc (group_id g) SecurityDelay g s1))"

text \<open>A station visit up to the \<open>yield req\<close>.\<close>

definition begin_stage :: "SimulationEngine \<Rightarrow> stage \<Rightarrow> PassengerGroup \<Rightarrow> sim \<Rightarrow> error + sim" where
  "begin_stage eng st g0 s0 =
     (let g1 = update_position (nodes eng) (stage_node st) g0;
          s1 = do_enter_area (stage_area st) g1 s0;
          g2 = set_queue_enter st (now s1) g1;
          (m, granted) = request (now s1) (get_station st (resources s1))
                           (group_id g2) (group_size g2);
          s2 = s1\<lparr>resources := set_station st m (resources s1)\<rparr>;
          s3 = schedule_grant granted s2
      in Inr (set_proc (group_id g2) (Requesting st) g2 s3))"

text \<open>The baggage block of \<open>PassengerProcess.run\<close>, entered after check-in.\<close>

definition baggage_process :: "SimulationEngine \<Rightarrow> PassengerGroup \<Rightarrow> sim \<Rightarrow> error + sim" where
  "baggage_process eng g s =
     (case baggage_drop_type g of
        BaggageDropType.COUNTER \<Rightarrow> begin_stage eng BaggageCounter g s
      | SELF \<Rightarrow> begin_stage eng TagKiosk g s
      | NONE \<Rightarrow> enter_security eng g s)"

text \<open>What follows the release of a station.\<close>

fun after_stage :: "SimulationEngine \<Rightarrow> stage \<Rightarrow> PassengerGroup \<Rightarrow> sim \<Rightarrow> error + sim" where
  "after_stage eng CheckinKiosk g s = baggage_process eng g s"
| "after_stage eng CheckinCounter g s = baggage_process eng g s"
| "after_stage eng BaggageCounter g s = enter_security eng g s"
| "after_stage eng TagKiosk g s = begin_stage eng DropPoint g s"
| "after_stage eng DropPoint g s = enter_security eng g s"

text \<open>
  \<open>_group_process_wrapper\<close> around \<open>PassengerProcess.run\<close>: the code a group's process
  runs when the scheduler resumes it, from the \<open>yield\<close> it waits at to the next one.
\<close>

definition group_resume :: "SimulationEngine \<Rightarrow> int \<Rightarrow> sim \<Rightarrow> error + sim" where
  "group_resume eng gid s =
     (case procs s gid of
        None \<Rightarrow> Inr s
      | Some p \<Rightarrow>
         (case at_yield p of
            AtStart \<Rightarrow>
              (let s1 = s\<lparr>active_groups := (if gid \<in> set (active_groups s) then active_groups s
                                              else active_groups s @ [gid])\<rparr>;
                   g = update_position (nodes eng) ''source'' (the_group p)
               in case checkin_type g of
                    ONLINE \<Rightarrow> timeout 5 (GroupProc gid) (set_proc gid OnlineDelay g s1)
                  | KIOSK \<Rightarrow> begin_stage eng CheckinKiosk g s1
                  | CheckinType.COUNTER \<Rightarrow> begin_stage eng CheckinCounter g s1)
          | OnlineDelay \<Rightarrow>
              baggage_process eng (update_position (nodes eng) ''checkin_kiosk'' (the_group p)) s
          | Requesting st \<Rightarrow>
              (let g = set_start st (now s) (the_group p)
               in case service_sample_one (service_times (config eng) st) (np_state s) of
                    Inl e \<Rightarrow> Inl e
                  | Inr (service_time, np') \<Rightarrow>
                      (let s1 = s\<lparr>np_state := np'\<rparr>
                       in timeout service_time (GroupProc gid)
                            (set_proc gid (InService st) g s1)))
          | InService st \<Rightarrow>
              (let g = set_end st (now s) (the_group p);
                   m = release (now s) (get_station st (resources s)) gid;
                   s1 = s\<lparr>resources := set_station st m (resources s)\<rparr>;
                   s2 = schedule NORMAL 0 (StationRelease st) s1;
                   s3 = do_leave_area (stage_area st) g s2
               in after_stage eng st g s3)
          | SecurityDelay \<Rightarrow>
              (let g = (the_group p)\<lparr>security_arrival := Some (now s)\<rparr>;
                   s1 = do_leave_area ''security_front'' g s;
                   s2 = s1\<lparr>completed := completed s1 @ [gid],
                           active_groups := remove1 gid (active_groups s1)\<rparr>;
                   s3 = set_proc gid Finished g s2
               in Inr (schedule NORMAL 0 (ProcessEnd (GroupProc gid)) s3))
          | Finished \<Rightarrow> Inr s))"

text \<open>\<open>env.process(process_callback(group))\<close>: a new process and its initialisation event.\<close>

definition spawn :: "PassengerGroup \<Rightarrow> sim \<Rightarrow> sim" where
  "spawn g s = schedule URGENT 0 (Resume (GroupProc (group_id g)))
                 (set_proc (group_id g) AtStart g s)"

text \<open>The \<open>for\<close> loop of \<open>ArrivalGenerator.arrival_process\<close>, run until its next \<open>yield\<close>.\<close>

fun arrival_loop :: "PassengerGroup list \<Rightarrow> real \<Rightarrow> sim \<Rightarrow> error + sim" where
  "arrival_loop [] last_arrival_time s =
     Inr (schedule NORMAL 0 (ProcessEnd ArrivalProc) (s\<lparr>arrival := ArrivalDone\<rparr>))"
| "arrival_loop (g # rest) last_arrival_time s =
     (let wait_time = arrival_time g - last_arrival_time
      in if wait_time > 0
         then timeout wait_time ArrivalProc (s\<lparr>arrival := ArrivalWaiting g rest\<rparr>)
         else arrival_loop rest (arrival_time g) (spawn g s))"

definition arrival_resume :: "sim \<Rightarrow> error + sim" where
  "arrival_resume s =
     (case arrival s of
        ArrivalInit groups \<Rightarrow> arrival_loop groups 0 s
      | ArrivalWaiting g rest \<Rightarrow> arrival_loop rest (arrival_time g) (spawn g s)
      | ArrivalDone \<Rightarrow> Inr s)"

text \<open>\<open>SimulationEngine._position_sampler\<close>, one turn of its loop.\<close>

definition snapshot_of :: "sim \<Rightarrow> PositionSnapshot" where
  "snapshot_of s =
     \<lparr>pos_time = now s,
      pos_groups = concat (map (\<lambda>gid. case procs s gid of
                                         None \<Rightarrow> []
                                       | Some p \<Rightarrow> [(group_id (the_group p), current_x (the_group p),
                                                     current_y (the_group p), group_size (the_group p),
                                                     current_node (the_group p))])
                               (active_groups s))\<rparr>"

definition sampler_resume :: "real \<Rightarrow> real \<Rightarrow> sim \<Rightarrow> error + sim" where
  "sampler_resume sample_interval end_time s =
     (if now s < end_time
      then timeout sample_interval SamplerProc
             (s\<lparr>position_snapshots := position_snapshots s @ [snapshot_of s]\<rparr>)
      else Inr (schedule NORMAL 0 (ProcessEnd SamplerProc) s))"

text \<open>The callbacks of an event, run by \<open>Environment.step\<close> after the clock has moved.\<close>

fun fire :: "SimulationEngine \<Rightarrow> real \<Rightarrow> event \<Rightarrow> sim \<Rightarrow> error + sim" where
  "fire eng end_time (Resume ArrivalProc) s = arrival_resume s"
| "fire eng end_time (Resume SamplerProc) s =
     sampler_resume (sample_interval_sec (config eng)) end_time s"
| "fire eng end_time (Resume (GroupProc gid)) s = group_resume eng gid s"
| "fire eng end_time (StationRelease st) s =
     (let (m, granted) = release_event (get_station st (resources s))
      in Inr (schedule_grant granted (s\<lparr>resources := set_station st m (resources s)\<rparr>)))"
| "fire eng end_time (ProcessEnd p) s = Inr s"
| "fire eng end_time Until s = Inr s"

text \<open>
  \<open>env.run(until=simulation_end)\<close>: events are taken in order until the \<open>until\<close> event
  comes up. The loop need not end (a sampling interval of zero keeps the clock at 0),
  so it runs on fuel: \<open>None\<close> is a loop that has not ended within \<open>fuel\<close> events.
  An exception raised inside a process makes simpy fail the event of that process,
  scheduled at the current time, and \<open>env.run\<close> raises the exception when it takes
  that event, which comes before the \<open>until\<close> event; the loop below raises it at once.
\<close>

fun run_loop :: "nat \<Rightarrow> SimulationEngine \<Rightarrow> real \<Rightarrow> sim \<Rightarrow> (error + sim) option" where
  "run_loop 0 eng end_time s = None"
| "run_loop (Suc fuel) eng end_time s =
     (case event_queue s of
        [] \<Rightarrow> Some (Inl RuntimeError)
      | (key, ev) # rest \<Rightarrow>
          (let s1 = s\<lparr>now := fst key, event_queue := rest\<rparr>
           in if ev = Until then Some (Inr s1)
              else (case fire eng end_time ev s1 of
                      Inl e \<Rightarrow> Some (Inl e)
                    | Inr s2 \<Rightarrow> run_loop fuel eng end_time s2)))"

section \<open>simulation/engine.py: run\<close>

text \<open>
  What a run finds when it starts: the state of numpy's generator, the state of the
  \<open>random\<close> module's generator, and the state that \<open>np.random.seed(n)\<close> puts numpy's
  generator in. Nothing in the program seeds the \<open>random\<close> module.
\<close>

record ambient =
  np_ambient :: np_random
  py_ambient :: py_random
  np_seeded :: "int \<Rightarrow> np_random"

text \<open>\<open>if seed is not None: np.random.seed(seed)\<close>: numpy raises ValueError for a
  seed outside \<open>[0, 2^32 - 1]\<close>.\<close>

definition np_random_seed :: "int option \<Rightarrow> ambient \<Rightarrow> np_random \<Rightarrow> error + np_random" where
  "np_random_seed seed amb g =
     (case seed of
        None \<Rightarrow> Inr g
      | Some n \<Rightarrow> if 0 \<le> n \<and> n < 2 ^ 32 then Inr (np_seeded amb n) else Inl ValueError)"

record SimulationResult =
  result_config :: SimulationConfig
  completed_groups :: "PassengerGroup list"
  queue_histories :: "string \<rightharpoonup> QueueSnapshot list"
  result_area_occupancy_history :: "AreaOccupancy list"
  result_position_snapshots :: "PositionSnapshot list"
  simulation_duration_sec :: real

text \<open>
  The first part of \<open>run\<close>, up to the arrival generator: the seeding (in \<open>run\<close>, in
  \<open>TruncatedTDistribution.__init__\<close> and in \<open>ArrivalGenerator.__init__\<close>, each time
  with the configured seed), the resources and the group factory.
\<close>

definition run_setup ::
  "SimulationEngine \<Rightarrow> ambient \<Rightarrow> error + (AirportResources \<times> ArrivalGenerator \<times> np_random)" where
  "run_setup eng amb =
     (let cfg = config eng
      in case np_random_seed (random_seed cfg) amb (np_ambient amb) of
           Inl e \<Rightarrow> Inl e
         | Inr np1 \<Rightarrow>
            (case AirportResources_init (capacity_checkin_kiosk cfg) (capacity_checkin_counter cfg)
                    (capacity_baggage_counter cfg) (capacity_tag_kiosk cfg)
                    (capacity_drop_point cfg) of
               Inl e \<Rightarrow> Inl e
             | Inr res \<Rightarrow>
                (case PassengerGroupFactory_init (p_online cfg) (p_kiosk cfg) (p_counter cfg)
                        (p_baggage cfg) (p_baggage_counter cfg) (p_single cfg)
                        (group_multi_min cfg) (group_multi_max cfg) of
                   Inl e \<Rightarrow> Inl e
                 | Inr factory \<Rightarrow>
                    (case np_random_seed (random_seed cfg) amb np1 of
                       Inl e \<Rightarrow> Inl e
                     | Inr np2 \<Rightarrow>
                        (let arrival_gen = ArrivalGenerator_init factory (arrival_df cfg)
                                             (arrival_mean_min_before cfg) (arrival_scale cfg)
                                             (arrival_range_min cfg) (arrival_range_max_c cfg)
                         in case np_random_seed (random_seed cfg) amb np2 of
                              Inl e \<Rightarrow> Inl e
                            | Inr np3 \<Rightarrow> Inr (res, arrival_gen, np3))))))"

definition empty_result :: "SimulationConfig \<Rightarrow> SimulationResult" where
  "empty_result cfg =
     \<lparr>result_config = cfg, completed_groups = [], queue_histories = Map.empty,
      result_area_occupancy_history = [], result_position_snapshots = [],
      simulation_duration_sec = 0\<rparr>"

definition initial_sim :: "AirportResources \<Rightarrow> PassengerGroup list \<Rightarrow> np_random \<Rightarrow> sim" where
  "initial_sim res groups g =
     \<lparr>now = 0, eid = 0, event_queue = [], resources = res, procs = Map.empty,
      arrival = ArrivalInit groups, active_groups = [], completed = [],
      position_snapshots = [], np_state = g, area_log = []\<rparr>"

text \<open>The state in which \<open>env.run\<close> enters its loop: the arrival process and the
  position sampler have been created, in this order, and the \<open>until\<close> event scheduled.\<close>

definition start_sim :: "AirportResources \<Rightarrow> PassengerGroup list \<Rightarrow> np_random \<Rightarrow> real \<Rightarrow> sim" where
  "start_sim res groups g simulation_end =
     (let s0 = initial_sim res groups g;
          s1 = schedule URGENT 0 (Resume ArrivalProc) s0;
          s2 = schedule URGENT 0 (Resume SamplerProc) s1
      in schedule URGENT (simulation_end - now s2) Until s2)"

definition groups_of :: "sim \<Rightarrow> int list \<Rightarrow> PassengerGroup list" where
  "groups_of s gids =
     concat (map (\<lambda>gid. case procs s gid of None \<Rightarrow> [] | Some p \<Rightarrow> [the_group p]) gids)"

definition collect_results :: "SimulationEngine \<Rightarrow> sim \<Rightarrow> SimulationResult" where
  "collect_results eng s =
     \<lparr>result_config = config eng,
      completed_groups = groups_of s (completed s),
      queue_histories =
        [''checkin_kiosk'' \<mapsto> queue_history (checkin_kiosk (resources s)),
         ''checkin_counter'' \<mapsto> queue_history (checkin_counter (resources s)),
         ''baggage_counter'' \<mapsto> queue_history (baggage_counter (resources s)),
         ''tag_kiosk'' \<mapsto> queue_history (tag_kiosk (resources s)),
         ''drop_point'' \<mapsto> queue_history (drop_point (resources s))],
      result_area_occupancy_history = area_occupancy_history (resources s),
      result_position_snapshots = position_snapshots s,
      simulation_duration_sec = now s\<rparr>"

text \<open>The scheduler part of \<open>run\<close>, for a non-empty list of groups; \<open>env.run\<close> raises
  ValueError when \<open>until\<close> is not after the current time 0.\<close>

definition simulate ::
  "nat \<Rightarrow> SimulationEngine \<Rightarrow> AirportResources \<Rightarrow> PassengerGroup list \<Rightarrow> np_random
     \<Rightarrow> (error + sim) option" where
  "simulate fuel eng res groups g =
     (let last_departure = Max (set (map departure_time groups));
          simulation_end = last_departure + 3600
      in if simulation_end \<le> 0 then Some (Inl ValueError)
         else run_loop fuel eng simulation_end (start_sim res groups g simulation_end))"

text \<open>\<open>run\<close> up to the end of the scheduler loop: the final state of the simulation,
  or \<open>None\<close> for it when no group was generated and the scheduler never started.\<close>

definition run_sim ::
  "nat \<Rightarrow> SimulationEngine \<Rightarrow> DemandSlot list \<Rightarrow> ambient \<Rightarrow> (error + sim option) option"
  where
  "run_sim fuel eng demand_slots amb =
     (case run_setup eng amb of
        Inl e \<Rightarrow> Some (Inl e)
      | Inr (res, arrival_gen, g) \<Rightarrow>
         (case generate_all_arrivals demand_slots (arrival_gen, g, py_ambient amb) of
            None \<Rightarrow> None
          | Some (Inl e) \<Rightarrow> Some (Inl e)
          | Some (Inr (groups, (arrival_gen', g', py'))) \<Rightarrow>
              if groups = [] then Some (Inr None)
              else (case simulate fuel eng res groups g' of
                      None \<Rightarrow> None
                    | Some (Inl e) \<Rightarrow> Some (Inl e)
                    | Some (Inr s) \<Rightarrow> Some (Inr (Some s)))))"

definition run ::
  "nat \<Rightarrow> SimulationEngine \<Rightarrow> DemandSlot list \<Rightarrow> ambient \<Rightarrow> (error + SimulationResult) option"
  where
  "run fuel eng demand_slots amb =
     (case run_sim fuel eng demand_slots amb of
        None \<Rightarrow> None
      | Some (Inl e) \<Rightarrow> Some (Inl e)
      | Some (Inr None) \<Rightarrow> Some (Inr (empty_result (config eng)))
      | Some (Inr (Some s)) \<Rightarrow> Some (Inr (collect_results eng s)))"


text \<open>The groups that \<open>run\<close> generates (none when its setup or the generation fails).\<close>

definition generated :: "SimulationEngine \<Rightarrow> DemandSlot list \<Rightarrow> ambient \<Rightarrow> PassengerGroup list" where
  "generated eng demand_slots amb =
     (case run_setup eng amb of
        Inl e \<Rightarrow> []
      | Inr (res, arrival_gen, g) \<Rightarrow>
         (case generate_all_arrivals demand_slots (arrival_gen, g, py_ambient amb) of
            Some (Inr (groups, st')) \<Rightarrow> groups
          | _ \<Rightarrow> []))"

section \<open>Concrete inputs\<close>

text \<open>
  Generators with constant draws: every variate of the arrival distribution is 25
  (minutes before departure), every standard normal variate is 0 (so a service time is
  its mean) and every raw uniform draw is \<open>u\<close>.
\<close>

definition const_np :: np_random where
  "const_np = \<lparr>np_t = (\<lambda>i. 25), np_unif = (\<lambda>i. 1 / 2), np_norm = (\<lambda>i. 0), np_pos = 0\<rparr>"

definition const_py :: "real \<Rightarrow> py_random" where
  "const_py u = \<lparr>py_unif = (\<lambda>i. u), py_int = (\<lambda>i. 0), py_pos = 0\<rparr>"

definition const_ambient :: "real \<Rightarrow> ambient" where
  "const_ambient u = \<lparr>np_ambient = const_np, py_ambient = const_py u, np_seeded = (\<lambda>n. const_np)\<rparr>"

definition no_nodes :: "string \<rightharpoonup> real \<times> real" where
  "no_nodes = Map.empty"

text \<open>The default configuration with a seed and a long sampling interval, and one
  slot of one passenger departing at minute 30.\<close>

definition seeded_config :: SimulationConfig where
  "seeded_config = default_config\<lparr>sample_interval_sec := 4000, random_seed := Some 42\<rparr>"

definition seeded_engine :: SimulationEngine where
  "seeded_engine = \<lparr>config = seeded_config, nodes = no_nodes\<rparr>"

definition one_passenger :: "DemandSlot list" where
  "one_passenger = [\<lparr>start_minutes = 0, end_minutes = 60, pax_count = 1\<rparr>]"

text \<open>A fresh station of capacity 1.\<close>

definition single_server :: MonitoredResource where
  "single_server =
     \<lparr>name = ''checkin_kiosk'', capacity = 1,
      resource = \<lparr>res_capacity = 1, users = [], put_queue = []\<rparr>,
      queue_history = [], current_queue = []\<rparr>"




text \<open>The seeded configuration with a check-in kiosk that takes 10000 seconds.\<close>

definition slow_engine :: SimulationEngine where
  "slow_engine =
     \<lparr>config = seeded_config\<lparr>service_checkin_kiosk_mean := 10000\<rparr>, nodes = no_nodes\<rparr>"



section \<open>Predicates used in the statements\<close>





text \<open>A group as the factory makes it: no timestamp is set.\<close>

definition pristine :: "PassengerGroup \<Rightarrow> bool" where
  "pristine g =
     (checkin_queue_enter g = None \<and> checkin_start g = None \<and> checkin_end g = None
      \<and> baggage_counter_queue_enter g = None \<and> baggage_counter_start g = None
      \<and> baggage_counter_end g = None
      \<and> tag_queue_enter g = None \<and> tag_start g = None \<and> tag_end g = None
      \<and> drop_queue_enter g = None \<and> drop_start g = None \<and> drop_end g = None
      \<and> security_arrival g = None)"

text \<open>Groups as a factory makes them, starting at id \<open>n\<close>.\<close>

definition ids_from :: "int \<Rightarrow> PassengerGroup list \<Rightarrow> bool" where
  "ids_from n gs = (map group_id gs = map (\<lambda>i. n + int i) [0..<length gs] \<and> list_all pristine gs)"

text \<open>The fields of a group that the simulation never writes.\<close>

definition core ::
  "PassengerGroup \<Rightarrow> int \<times> int \<times> real \<times> real \<times> CheckinType \<times> bool \<times> BaggageDropType" where
  "core g = (group_id g, group_size g, arrival_time g, departure_time g, checkin_type g,
             has_baggage g, baggage_drop_type g)"

text \<open>The three timestamps of a station visit: queue entry, service start, service end.\<close>

fun stage_stamps :: "stage \<Rightarrow> PassengerGroup \<Rightarrow> real option \<times> real option \<times> real option" where
  "stage_stamps CheckinKiosk g = (checkin_queue_enter g, checkin_start g, checkin_end g)"
| "stage_stamps CheckinCounter g = (checkin_queue_enter g, checkin_start g, checkin_end g)"
| "stage_stamps BaggageCounter g =
     (baggage_counter_queue_enter g, baggage_counter_start g, baggage_counter_end g)"
| "stage_stamps TagKiosk g = (tag_queue_enter g, tag_start g, tag_end g)"
| "stage_stamps DropPoint g = (drop_queue_enter g, drop_start g, drop_end g)"

text \<open>
  The order of the timestamps of one visit: a service end comes with a service start
  not after it, and a service start with a queue entry not after it.
\<close>

definition stamps_ordered :: "real option \<times> real option \<times> real option \<Rightarrow> bool" where
  "stamps_ordered qse =
     (case qse of (q, s, e) \<Rightarrow>
        (case e of None \<Rightarrow> True
         | Some te \<Rightarrow> (case s of None \<Rightarrow> False | Some ts \<Rightarrow> ts \<le> te))
      \<and> (case s of None \<Rightarrow> True
         | Some ts \<Rightarrow> (case q of None \<Rightarrow> False | Some tq \<Rightarrow> tq \<le> ts)))"

definition stamps_before :: "real \<Rightarrow> real option \<times> real option \<times> real option \<Rightarrow> bool" where
  "stamps_before t qse =
     (case qse of (q, s, e) \<Rightarrow>
        (case q of None \<Rightarrow> True | Some tq \<Rightarrow> tq \<le> t)
      \<and> (case s of None \<Rightarrow> True | Some ts \<Rightarrow> ts \<le> t)
      \<and> (case e of None \<Rightarrow> True | Some te \<Rightarrow> te \<le> t))"

text \<open>The stations a group may still visit after the station it is at.\<close>

fun later_stages :: "stage \<Rightarrow> stage list" where
  "later_stages CheckinKiosk = [BaggageCounter, TagKiosk, DropPoint]"
| "later_stages CheckinCounter = [BaggageCounter, TagKiosk, DropPoint]"
| "later_stages BaggageCounter = []"
| "later_stages TagKiosk = [DropPoint]"
| "later_stages DropPoint = []"

definition unvisited :: "stage \<Rightarrow> PassengerGroup \<Rightarrow> bool" where
  "unvisited st g = (stage_stamps st g = (None, None, None))"

text \<open>What holds of a group whose process waits at a given \<open>yield\<close>, at time \<open>t\<close>.\<close>

fun pc_inv :: "pc \<Rightarrow> PassengerGroup \<Rightarrow> bool" where
  "pc_inv AtStart g = pristine g"
| "pc_inv OnlineDelay g = pristine g"
| "pc_inv (Requesting st) g =
     (fst (stage_stamps st g) \<noteq> None \<and> fst (snd (stage_stamps st g)) = None
      \<and> snd (snd (stage_stamps st g)) = None \<and> list_all (\<lambda>st'. unvisited st' g) (later_stages st)
      \<and> security_arrival g = None)"
| "pc_inv (InService st) g =
     (fst (snd (stage_stamps st g)) \<noteq> None \<and> snd (snd (stage_stamps st g)) = None
      \<and> list_all (\<lambda>st'. unvisited st' g) (later_stages st) \<and> security_arrival g = None)"
| "pc_inv SecurityDelay g = (security_arrival g = None)"
| "pc_inv Finished g = (security_arrival g \<noteq> None)"

definition stamps_ok :: "real \<Rightarrow> PassengerGroup \<Rightarrow> bool" where
  "stamps_ok t g =
     list_all (\<lambda>st. stamps_ordered (stage_stamps st g) \<and> stamps_before t (stage_stamps st g))
       [CheckinKiosk, BaggageCounter, TagKiosk, DropPoint]"

definition group_inv :: "real \<Rightarrow> pc \<Rightarrow> PassengerGroup \<Rightarrow> bool" where
  "group_inv t c g =
     (pc_inv c g
      \<and> stamps_ok t g
      \<and> arrival_time g \<le> t
      \<and> (case security_arrival g of None \<Rightarrow> True | Some ta \<Rightarrow> arrival_time g \<le> ta \<and> ta \<le> t))"

text \<open>The groups the arrival process has not spawned yet.\<close>

fun pending :: "arrival_state \<Rightarrow> PassengerGroup list" where
  "pending (ArrivalInit groups) = groups"
| "pending (ArrivalWaiting g rest) = g # rest"
| "pending ArrivalDone = []"

text \<open>A group between two \<open>yield\<close>s that may still visit the stations \<open>sts\<close>.\<close>

definition ready :: "real \<Rightarrow> stage list \<Rightarrow> PassengerGroup \<Rightarrow> bool" where
  "ready t sts g =
     (list_all (\<lambda>st. unvisited st g) sts
      \<and> security_arrival g = None
      \<and> stamps_ok t g
      \<and> arrival_time g \<le> t)"

text \<open>The two check-in stations write the same fields of a group.\<close>

fun field_group :: "stage \<Rightarrow> stage" where
  "field_group CheckinCounter = CheckinKiosk"
| "field_group st = st"

definition entry_ok :: "PassengerGroup list \<Rightarrow> real \<Rightarrow> int \<Rightarrow> process \<Rightarrow> bool" where
  "entry_ok groups t gid p =
     (group_id (the_group p) = gid \<and> group_inv t (at_yield p) (the_group p)
      \<and> core (the_group p) \<in> core ` set groups)"

definition pending_ok :: "PassengerGroup list \<Rightarrow> sim \<Rightarrow> bool" where
  "pending_ok groups s =
     (distinct (map group_id (pending (arrival s)))
      \<and> (\<forall>g \<in> set (pending (arrival s)).
            pristine g \<and> g \<in> set groups \<and> procs s (group_id g) = None))"

definition completed_ok :: "sim \<Rightarrow> bool" where
  "completed_ok s =
     (\<forall>gid \<in> set (completed s). \<exists>p. procs s gid = Some p \<and> at_yield p = Finished)"

text \<open>
  The processes of a state are sound, for the generated groups \<open>groups\<close>: each owns a
  group that keeps the identity of a generated one and satisfies the invariant of the
  \<open>yield\<close> it waits at; the completed groups are those of finished processes; the
  groups not spawned yet are generated groups, untouched, with ids of their own.
\<close>

definition procs_inv :: "PassengerGroup list \<Rightarrow> sim \<Rightarrow> bool" where
  "procs_inv groups s =
     ((\<forall>gid p. procs s gid = Some p \<longrightarrow> entry_ok groups (now s) gid p)
      \<and> completed_ok s \<and> pending_ok groups s)"

text \<open>The keys of the resumption events of the arrival process in an event queue.\<close>

definition arrival_events :: "((real \<times> nat \<times> nat) \<times> event) list \<Rightarrow> (real \<times> nat \<times> nat) list" where
  "arrival_events q = map fst (filter (\<lambda>ke. snd ke = Resume ArrivalProc) q)"

text \<open>
  The event queue of a state is sound, for the horizon \<open>end_time\<close>: it is sorted, no
  event lies before the clock, an \<open>until\<close> event is in it and only at the horizon
  (\<open>queue_base\<close>), and the arrival process has exactly one resumption event while it
  is alive, not before the arrival time of the group it waits for (\<open>arrival_link\<close>).
\<close>

definition queue_base :: "real \<Rightarrow> sim \<Rightarrow> bool" where
  "queue_base end_time s =
     (0 \<le> now s
      \<and> sorted (map fst (event_queue s))
      \<and> (\<forall>ke \<in> set (event_queue s). now s \<le> fst (fst ke))
      \<and> (\<exists>k. (k, Until) \<in> set (event_queue s))
      \<and> (\<forall>ke \<in> set (event_queue s). snd ke = Until \<longrightarrow> fst (fst ke) = end_time))"

definition arrival_link :: "sim \<Rightarrow> bool" where
  "arrival_link s =
     (case arrival s of
        ArrivalInit groups \<Rightarrow> length (arrival_events (event_queue s)) = 1
      | ArrivalWaiting g rest \<Rightarrow>
          (\<exists>k. arrival_events (event_queue s) = [k] \<and> arrival_time g \<le> fst k)
      | ArrivalDone \<Rightarrow> arrival_events (event_queue s) = [])"

definition queue_inv :: "real \<Rightarrow> sim \<Rightarrow> bool" where
  "queue_inv end_time s = (queue_base end_time s \<and> arrival_link s)"

text \<open>
  A queue grows by scheduling: \<open>queue_grows t ok q q'\<close> when \<open>q'\<close> is \<open>q\<close> with
  events inserted that satisfy \<open>ok\<close> and lie at or after time \<open>t\<close>.
\<close>

inductive queue_grows ::
  "real \<Rightarrow> (event \<Rightarrow> bool) \<Rightarrow> ((real \<times> nat \<times> nat) \<times> event) list
     \<Rightarrow> ((real \<times> nat \<times> nat) \<times> event) list \<Rightarrow> bool"
  for t :: real and ok :: "event \<Rightarrow> bool" and q :: "((real \<times> nat \<times> nat) \<times> event) list"
  where
  same: "queue_grows t ok q q"
| more: "queue_grows t ok q q' \<Longrightarrow> t \<le> fst k \<Longrightarrow> ok ev \<Longrightarrow>
         queue_grows t ok q (insort_key fst (k, ev) q')"

text \<open>The area a process is registered in while it waits at a \<open>yield\<close>.\<close>

fun zone_of :: "pc \<Rightarrow> string option" where
  "zone_of (Requesting st) = Some (stage_area st)"
| "zone_of (InService st) = Some (stage_area st)"
| "zone_of SecurityDelay = Some ''security_front''"
| "zone_of AtStart = None"
| "zone_of OnlineDelay = None"
| "zone_of Finished = None"

definition enters :: "string \<Rightarrow> area_event list \<Rightarrow> nat" where
  "enters z l = length (filter (\<lambda>e. case e of Enter z' gid \<Rightarrow> z' = z | Leave z' gid \<Rightarrow> False) l)"

definition leaves :: "string \<Rightarrow> area_event list \<Rightarrow> nat" where
  "leaves z l = length (filter (\<lambda>e. case e of Enter z' gid \<Rightarrow> False | Leave z' gid \<Rightarrow> z' = z) l)"

text \<open>
  The areas of a state are sound, for an assignment \<open>Z\<close> of areas to group ids: an
  area's member list has no group twice and holds exactly the groups assigned to it,
  its calls of \<open>enter_area\<close> exceed those of \<open>leave_area\<close> by the number of its
  members, and no recorded group count is negative.
\<close>

definition areas_inv :: "(int \<Rightarrow> string option) \<Rightarrow> AirportResources \<Rightarrow> area_event list \<Rightarrow> bool" where
  "areas_inv Z res l =
     (dom (groups_in_area res) = dom initial_areas
      \<and> (\<forall>z members. groups_in_area res z = Some members \<longrightarrow>
            distinct (map fst members)
          \<and> set (map fst members) = {gid. Z gid = Some z}
          \<and> enters z l = leaves z l + length members)
      \<and> (\<forall>a \<in> set (area_occupancy_history res). 0 \<le> group_count a))"

definition zones :: "sim \<Rightarrow> int \<Rightarrow> string option" where
  "zones s gid = (case procs s gid of None \<Rightarrow> None | Some p \<Rightarrow> zone_of (at_yield p))"

text \<open>A step of the simulation that leaves the clock alone and only adds events.\<close>

definition grows :: "(event \<Rightarrow> bool) \<Rightarrow> sim \<Rightarrow> sim \<Rightarrow> bool" where
  "grows ok s s' = (now s' = now s \<and> queue_grows (now s) ok (event_queue s) (event_queue s'))"

text \<open>A step that adds no resumption of the arrival process and no \<open>until\<close> event,
  and leaves the arrival process alone.\<close>

definition quiet :: "sim \<Rightarrow> sim \<Rightarrow> bool" where
  "quiet s s' =
     (grows (\<lambda>ev. ev \<noteq> Resume ArrivalProc \<and> ev \<noteq> Until) s s' \<and> arrival s' = arrival s)"

text \<open>
  The whole invariant of a run, and the invariant in the middle of the code that the
  process of group \<open>gid\<close> runs between two \<open>yield\<close>s: there the group is held in a
  local variable \<open>g\<close>, is registered in no area, and may still visit the stations
  \<open>sts\<close>.
\<close>

definition full_inv :: "PassengerGroup list \<Rightarrow> sim \<Rightarrow> bool" where
  "full_inv groups s =
     (procs_inv groups s \<and> areas_inv (zones s) (resources s) (area_log s))"

definition mid_inv :: "PassengerGroup list \<Rightarrow> int \<Rightarrow> PassengerGroup \<Rightarrow> stage list \<Rightarrow> sim \<Rightarrow> bool" where
  "mid_inv groups gid g sts s =
     (group_id g = gid \<and> core g \<in> core ` set groups \<and> ready (now s) sts g
      \<and> procs s gid \<noteq> None \<and> gid \<notin> set (completed s)
      \<and> (\<forall>gid' p. gid' \<noteq> gid \<longrightarrow> procs s gid' = Some p \<longrightarrow> entry_ok groups (now s) gid' p)
      \<and> completed_ok s \<and> pending_ok groups s
      \<and> areas_inv ((zones s)(gid := None)) (resources s) (area_log s))"

text \<open>
  The invariant while the arrival process runs its loop with the groups \<open>gs\<close> still
  to spawn, and the invariant of the scheduler loop.
\<close>

definition spawn_inv :: "PassengerGroup list \<Rightarrow> PassengerGroup list \<Rightarrow> sim \<Rightarrow> bool" where
  "spawn_inv groups gs s =
     ((\<forall>gid p. procs s gid = Some p \<longrightarrow> entry_ok groups (now s) gid p)
      \<and> completed_ok s
      \<and> distinct (map group_id gs)
      \<and> (\<forall>g \<in> set gs. pristine g \<and> g \<in> set groups \<and> procs s (group_id g) = None)
      \<and> areas_inv (zones s) (resources s) (area_log s))"

definition run_inv :: "real \<Rightarrow> PassengerGroup list \<Rightarrow> sim \<Rightarrow> bool" where
  "run_inv end_time groups s = (full_inv groups s \<and> queue_inv end_time s)"

section \<open>A bound on the events still to come\<close>

text \<open>The number of turns the position sampler still takes when it is resumed at
  time \<open>t\<close>, for a sampling interval \<open>iv\<close> and the horizon \<open>e\<close>.\<close>

definition pot :: "real \<Rightarrow> real \<Rightarrow> real \<Rightarrow> nat" where
  "pot iv e t = (if t < e then nat \<lceil>(e - t) / iv\<rceil> else 0)"

definition weight :: "real \<Rightarrow> real \<Rightarrow> (real \<times> nat \<times> nat) \<times> event \<Rightarrow> nat" where
  "weight iv e ke = (if snd ke = Resume SamplerProc then 2 + pot iv e (fst (fst ke)) else 1)"

text \<open>The \<open>yield\<close>s a process has before it, at most.\<close>

fun pc_rank :: "pc \<Rightarrow> nat" where
  "pc_rank Finished = 0"
| "pc_rank SecurityDelay = 1"
| "pc_rank (InService DropPoint) = 2"
| "pc_rank (Requesting DropPoint) = 3"
| "pc_rank (InService TagKiosk) = 4"
| "pc_rank (Requesting TagKiosk) = 5"
| "pc_rank (InService BaggageCounter) = 4"
| "pc_rank (Requesting BaggageCounter) = 5"
| "pc_rank (InService CheckinKiosk) = 6"
| "pc_rank (InService CheckinCounter) = 6"
| "pc_rank OnlineDelay = 6"
| "pc_rank (Requesting CheckinKiosk) = 7"
| "pc_rank (Requesting CheckinCounter) = 7"
| "pc_rank AtStart = 8"

definition work :: "process option \<Rightarrow> nat" where
  "work po = (case po of None \<Rightarrow> 27 | Some p \<Rightarrow> 3 * pc_rank (at_yield p))"

definition work_left :: "PassengerGroup list \<Rightarrow> (int \<rightharpoonup> process) \<Rightarrow> nat" where
  "work_left groups pr = sum_list (map (\<lambda>g. work (pr (group_id g))) groups)"

definition waiting :: "AirportResources \<Rightarrow> nat" where
  "waiting res =
     sum_list (map (\<lambda>st. length (put_queue (resource (get_station st res))))
                 [CheckinKiosk, CheckinCounter, BaggageCounter, TagKiosk, DropPoint])"

text \<open>A number that every step of the scheduler loop makes smaller.\<close>

definition remaining :: "real \<Rightarrow> real \<Rightarrow> PassengerGroup list \<Rightarrow> sim \<Rightarrow> nat" where
  "remaining iv e groups s =
     sum_list (map (weight iv e) (event_queue s)) + work_left groups (procs s)
     + waiting (resources s)
     + (case arrival s of ArrivalInit gs \<Rightarrow> 1 | _ \<Rightarrow> 0)"

section \<open>Properties of the truncated sampler\<close>

declare sample_loop.simps [simp del]















section \<open>Properties of arrival generation\<close>





lemma group_size_new [simp]: "group_size (new_PassengerGroup gid gs arr dep ct hb bt) = gs"
  by (simp add: new_PassengerGroup_def)










section \<open>Properties of the stations\<close>

lemma trigger_put_queue:
  "(case snd (trigger_put r) of None \<Rightarrow> [] | Some g \<Rightarrow> [g]) @ put_queue (fst (trigger_put r))
     = put_queue r"
  by (cases "put_queue r") (simp_all add: trigger_put_def)

lemma request_queue:
  "(case snd (request t m gid gs) of None \<Rightarrow> [] | Some g \<Rightarrow> [g])
     @ put_queue (resource (fst (request t m gid gs)))
   = put_queue (resource m) @ [gid]"
  using trigger_put_queue[of "(resource m)\<lparr>put_queue := put_queue (resource m) @ [gid]\<rparr>"]
  by (simp add: request_def record_snapshot_def resource_request_def Let_def split_beta)

lemma release_queue: "put_queue (resource (release t m gid)) = put_queue (resource m)"
  by (simp add: release_def record_snapshot_def resource_release_def Let_def)

lemma release_event_queue:
  "(case snd (release_event m) of None \<Rightarrow> [] | Some g \<Rightarrow> [g])
     @ put_queue (resource (fst (release_event m)))
   = put_queue (resource m)"
  using trigger_put_queue[of "resource m"]
  by (simp add: release_event_def split_beta)

text \<open>
  C5. Whatever groups request and release a station, and whenever the scheduler
  processes its release events, the requests granted so far followed by the requests
  still waiting are the requests in the order they were made: grants are handed out
  in the order of the requests, whatever the sizes of the groups. For a station of
  capacity 1 and three groups of sizes 5, 1 and 3 requesting in this order, the grant
  order is the request order.
\<close>

theorem grants_are_fifo:
  "snd (drive m ops) @ put_queue (resource (fst (drive m ops)))
     = put_queue (resource m) @ requested ops
 \<and> snd (drive single_server
           [Request 0 5, Request 1 1, Request 2 3,
            Release 0, ReleaseEvent, Release 1, ReleaseEvent]) = [0, 1, 2]"
proof
  show "snd (drive m ops) @ put_queue (resource (fst (drive m ops)))
          = put_queue (resource m) @ requested ops"
  proof (induction ops arbitrary: m)
    case Nil
    show ?case by simp
  next
    case (Cons op ops)
    show ?case
    proof (cases op)
      case (Request gid gs)
      have "snd (drive m (op # ops)) @ put_queue (resource (fst (drive m (op # ops))))
            = (case snd (request 0 m gid gs) of None \<Rightarrow> [] | Some g \<Rightarrow> [g])
              @ (snd (drive (fst (request 0 m gid gs)) ops)
                 @ put_queue (resource (fst (drive (fst (request 0 m gid gs)) ops))))"
        by (simp add: Request split_beta)
      also have "\<dots> = ((case snd (request 0 m gid gs) of None \<Rightarrow> [] | Some g \<Rightarrow> [g])
              @ put_queue (resource (fst (request 0 m gid gs)))) @ requested ops"
        by (simp only: Cons.IH append_assoc)
      also have "\<dots> = put_queue (resource m) @ requested (op # ops)"
        by (simp only: request_queue Request requested.simps append_assoc append_Cons append_Nil)
      finally show ?thesis .
    next
      case (Release gid)
      show ?thesis
        by (simp add: Release Cons.IH release_queue)
    next
      case ReleaseEvent
      have "snd (drive m (op # ops)) @ put_queue (resource (fst (drive m (op # ops))))
            = (case snd (release_event m) of None \<Rightarrow> [] | Some g \<Rightarrow> [g])
              @ (snd (drive (fst (release_event m)) ops)
                 @ put_queue (resource (fst (drive (fst (release_event m)) ops))))"
        by (simp add: ReleaseEvent split_beta)
      also have "\<dots> = ((case snd (release_event m) of None \<Rightarrow> [] | Some g \<Rightarrow> [g])
              @ put_queue (resource (fst (release_event m)))) @ requested ops"
        by (simp only: Cons.IH append_assoc)
      also have "\<dots> = put_queue (resource m) @ requested (op # ops)"
        by (simp only: release_event_queue ReleaseEvent requested.simps)
      finally show ?thesis .
    qed
  qed
next
  show "snd (drive single_server
           [Request 0 5, Request 1 1, Request 2 3,
            Release 0, ReleaseEvent, Release 1, ReleaseEvent]) = [0, 1, 2]"
    by code_simp
qed

text \<open>
  C2. A station of capacity 1 receives the requests of group 0 (2 passengers), group 1
  (3 passengers) and group 2 (5 passengers). When the third request is made, group 0 is
  in service and group 1 is the only request waiting, with 3 passengers; the snapshot
  recorded for the third request has \<open>queue_length = 1\<close> and \<open>queue_pax_count = 2\<close>,
  the size of the group in service.
\<close>

theorem queue_pax_count_counts_group_in_service:
  "users (resource (fst (drive single_server [Request 0 2, Request 1 3]))) = [0]
 \<and> put_queue (resource (fst (drive single_server [Request 0 2, Request 1 3]))) = [1]
 \<and> current_queue (fst (drive single_server [Request 0 2, Request 1 3])) = [(0, 2), (1, 3)]
 \<and> last (queue_history (fst (drive single_server [Request 0 2, Request 1 3, Request 2 5])))
     = \<lparr>snap_time = 0, queue_length = 1, queue_pax_count = 2, in_service = 1\<rparr>"
  by code_simp

section \<open>Configuration errors\<close>

lemma AirportResources_init_cases:
  "AirportResources_init c1 c2 c3 c4 c5 =
     (if 0 < c1 \<and> 0 < c2 \<and> 0 < c3 \<and> 0 < c4 \<and> 0 < c5
      then Inr \<lparr>checkin_kiosk = \<lparr>name = ''checkin_kiosk'', capacity = c1,
                   resource = \<lparr>res_capacity = c1, users = [], put_queue = []\<rparr>,
                   queue_history = [], current_queue = []\<rparr>,
                checkin_counter = \<lparr>name = ''checkin_counter'', capacity = c2,
                   resource = \<lparr>res_capacity = c2, users = [], put_queue = []\<rparr>,
                   queue_history = [], current_queue = []\<rparr>,
                baggage_counter = \<lparr>name = ''baggage_counter'', capacity = c3,
                   resource = \<lparr>res_capacity = c3, users = [], put_queue = []\<rparr>,
                   queue_history = [], current_queue = []\<rparr>,
                tag_kiosk = \<lparr>name = ''tag_kiosk'', capacity = c4,
                   resource = \<lparr>res_capacity = c4, users = [], put_queue = []\<rparr>,
                   queue_history = [], current_queue = []\<rparr>,
                drop_point = \<lparr>name = ''drop_point'', capacity = c5,
                   resource = \<lparr>res_capacity = c5, users = [], put_queue = []\<rparr>,
                   queue_history = [], current_queue = []\<rparr>,
                area_occupancy_history = [], groups_in_area = initial_areas\<rparr>
      else Inl ValueError)"
  by (simp add: AirportResources_init_def MonitoredResource_init_def Resource_init_def)







section \<open>Replay\<close>

text \<open>
  C1. The same engine (seed 42) runs the same demand twice. Both runs find numpy's
  generator in the state the seed puts it in; they differ only in the state in which
  they find the generator of the \<open>random\<close> module, which \<open>run\<close> never seeds. The
  first run completes one group of size 1 whose check-in ends at 370; the second
  completes one group of size 2 whose check-in ends at 480, and the area histories
  differ as well.
\<close>

theorem replay_depends_on_unseeded_random_module:
  "np_ambient (const_ambient (1 / 2)) = np_ambient (const_ambient (9 / 10))
 \<and> np_seeded (const_ambient (1 / 2)) = np_seeded (const_ambient (9 / 10))
 \<and> random_seed (config seeded_engine) = Some 42
 \<and> map_option (map_sum id (\<lambda>r. (map group_size (completed_groups r),
                                   map checkin_end (completed_groups r),
                                   map pax_count_a (result_area_occupancy_history r))))
       (run 30 seeded_engine one_passenger (const_ambient (1 / 2)))
     = Some (Inr ([1], [Some 370], [1, 0, 1, 0]))
 \<and> map_option (map_sum id (\<lambda>r. (map group_size (completed_groups r),
                                   map checkin_end (completed_groups r),
                                   map pax_count_a (result_area_occupancy_history r))))
       (run 30 seeded_engine one_passenger (const_ambient (9 / 10)))
     = Some (Inr ([2], [Some 480], [2, 0, 2, 0]))"
proof (intro conjI)
  show "np_ambient (const_ambient (1 / 2)) = np_ambient (const_ambient (9 / 10))"
    by (simp add: const_ambient_def)
  show "np_seeded (const_ambient (1 / 2)) = np_seeded (const_ambient (9 / 10))"
    by (simp add: const_ambient_def)
  show "random_seed (config seeded_engine) = Some 42"
    by (simp add: seeded_engine_def seeded_config_def)
  show "map_option (map_sum id (\<lambda>r. (map group_size (completed_groups r),
                                   map checkin_end (completed_groups r),
                                   map pax_count_a (result_area_occupancy_history r))))
       (run 30 seeded_engine one_passenger (const_ambient (1 / 2)))
     = Some (Inr ([1], [Some 370], [1, 0, 1, 0]))"
    by code_simp
  show "map_option (map_sum id (\<lambda>r. (map group_size (completed_groups r),
                                   map checkin_end (completed_groups r),
                                   map pax_count_a (result_area_occupancy_history r))))
       (run 30 seeded_engine one_passenger (const_ambient (9 / 10)))
     = Some (Inr ([2], [Some 480], [2, 0, 2, 0]))"
    by code_simp
qed

section \<open>The generated groups\<close>


lemma pristine_new [simp]: "pristine (new_PassengerGroup gid gs arr dep ct hb bt)"
  by (simp add: pristine_def new_PassengerGroup_def)

lemma group_id_new [simp]: "group_id (new_PassengerGroup gid gs arr dep ct hb bt) = gid"
  by (simp add: new_PassengerGroup_def)

lemma create_group_facts:
  assumes "create_group f arr dep r = Inr (grp, f', r')"
  shows "group_id grp = next_group_id f \<and> pristine grp
       \<and> f' = f\<lparr>next_group_id := next_group_id f + 1\<rparr>"
  using assms
  by (auto simp: create_group_def Let_def split_beta split: sum.splits if_splits)

lemma ids_from_Nil [simp]: "ids_from n []"
  by (simp add: ids_from_def)

lemma ids_from_Cons: "ids_from n (g # gs) = (group_id g = n \<and> pristine g \<and> ids_from (n + 1) gs)"
proof -
  have "map (\<lambda>i. n + int i) [0..<Suc (length gs)] = n # map (\<lambda>i. n + 1 + int i) [0..<length gs]"
    by (simp add: upt_conv_Cons map_Suc_upt[symmetric] del: upt_Suc)
  then show ?thesis by (auto simp: ids_from_def)
qed

lemma ids_from_append:
  "ids_from n (xs @ ys) = (ids_from n xs \<and> ids_from (n + int (length xs)) ys)"
proof (induction xs arbitrary: n)
  case Nil
  show ?case by simp
next
  case (Cons x xs)
  have "n + 1 + int (length xs) = n + int (length (x # xs))" by simp
  then show ?case by (simp add: ids_from_Cons Cons.IH add.assoc)
qed

lemma ids_from_distinct: "ids_from n gs \<Longrightarrow> distinct (map group_id gs)"
  by (simp add: ids_from_def distinct_map inj_on_def)

lemma generate_loop_ids:
  assumes "generate_loop slot rem groups st = Some y"
  shows "case y of Inl e \<Rightarrow> True
         | Inr (groups', gen', np', py') \<Rightarrow>
             \<exists>new. groups' = groups @ new
                  \<and> ids_from (next_group_id (group_factory (fst st))) new
                  \<and> next_group_id (group_factory gen')
                      = next_group_id (group_factory (fst st)) + int (length new)"
proof (rule generate_loop.raw_induct[where P = "\<lambda>slot rem groups st y.
         case y of Inl e \<Rightarrow> True
         | Inr (groups', gen', np', py') \<Rightarrow>
             \<exists>new. groups' = groups @ new
                  \<and> ids_from (next_group_id (group_factory (fst st))) new
                  \<and> next_group_id (group_factory gen')
                      = next_group_id (group_factory (fst st)) + int (length new)", OF _ assms],
       goal_cases)
  case (1 generate_loop slot rem groups st y)
  show ?case
  proof (cases "0 < rem")
    case False
    then have "y = Inr (groups, st)" using 1(2) by simp
    then show ?thesis by (cases st) simp
  next
    case True
    obtain gen np py where st: "st = (gen, np, py)" by (cases st) auto
    let ?dep = "(start_minutes slot + end_minutes slot) / 2"
    show ?thesis
    proof (cases "sample_one (arrival_dist gen) np")
      case (Inl e)
      then show ?thesis using 1(2) True st by (auto simp: Let_def)
    next
      case (Inr xn)
      obtain x np' where xn: "xn = (x, np')" by (cases xn)
      show ?thesis
      proof (cases "create_group (group_factory gen) (max 0 (?dep - x) * 60) (?dep * 60) py")
        case (Inl e)
        then show ?thesis using 1(2) True st Inr xn by (auto simp: Let_def)
      next
        case C: (Inr gfp)
        obtain grp f' py' where gfp: "gfp = (grp, f', py')" by (cases gfp)
        have rec: "generate_loop slot (rem - group_size grp) (groups @ [grp])
                     (gen\<lparr>group_factory := f'\<rparr>, np', py') = Some y"
          using 1(2) True st Inr xn C gfp by (simp add: Let_def)
        have cf: "group_id grp = next_group_id (group_factory gen)" "pristine grp"
          "f' = (group_factory gen)\<lparr>next_group_id := next_group_id (group_factory gen) + 1\<rparr>"
          using create_group_facts[of "group_factory gen" _ _ py grp f' py'] C gfp by auto
        show ?thesis
        proof (cases y)
          case (Inl e)
          then show ?thesis by simp
        next
          case R: (Inr r)
          obtain groups' gen' np2 py2 where r: "r = (groups', gen', np2, py2)" by (cases r)
          from 1(1)[OF rec] R r obtain new where
            n: "groups' = (groups @ [grp]) @ new"
               "ids_from (next_group_id f') new"
               "next_group_id (group_factory gen') = next_group_id f' + int (length new)"
            by auto
          have "groups' = groups @ (grp # new)" using n(1) by simp
          moreover have "ids_from (next_group_id (group_factory gen)) (grp # new)"
            using n(2) cf by (simp add: ids_from_Cons)
          moreover have "next_group_id (group_factory gen')
                           = next_group_id (group_factory gen) + int (length (grp # new))"
            using n(3) cf by simp
          ultimately show ?thesis using R r st by auto
        qed
      qed
    qed
  qed
qed

lemma generate_slots_ids:
  assumes "generate_slots slots acc st = Some (Inr (groups, st'))"
    and "ids_from n acc" and "next_group_id (group_factory (fst st)) = n + int (length acc)"
  shows "ids_from n groups
       \<and> next_group_id (group_factory (fst st')) = n + int (length groups)"
  using assms
proof (induction slots arbitrary: acc st)
  case Nil
  then show ?case by simp
next
  case (Cons slot slots)
  show ?case
  proof (cases "0 < pax_count slot")
    case False
    then show ?thesis using Cons by simp
  next
    case True
    then obtain y where y: "generate_arrivals_for_slot slot st = Some y"
      using Cons.prems(1) by (cases "generate_arrivals_for_slot slot st") auto
    then obtain gs st1 where y2: "y = Inr (gs, st1)"
      and rec: "generate_slots slots (acc @ gs) st1 = Some (Inr (groups, st'))"
      using Cons.prems(1) True by (cases y) auto
    obtain gen1 np1 py1 where st1: "st1 = (gen1, np1, py1)" by (cases st1) auto
    from generate_loop_ids[of slot "pax_count slot" "[]" st y] y y2 st1
    have g: "ids_from (next_group_id (group_factory (fst st))) gs"
      "next_group_id (group_factory gen1) = next_group_id (group_factory (fst st)) + int (length gs)"
      by (auto simp: generate_arrivals_for_slot_def)
    have a: "ids_from n (acc @ gs)"
      using Cons.prems(2,3) g(1) by (simp add: ids_from_append)
    have b: "next_group_id (group_factory (fst st1)) = n + int (length (acc @ gs))"
      using Cons.prems(3) g(2) st1 by simp
    from Cons.IH[OF rec a b] show ?thesis .
  qed
qed

lemma distinct_map_insort_key:
  "distinct (map g (insort_key f x xs)) = (g x \<notin> g ` set xs \<and> distinct (map g xs))"
  by (induction xs) (auto simp: set_insort_key)

lemma distinct_map_sort_key: "distinct (map g (sort_key f xs)) = distinct (map g xs)"
  by (induction xs) (simp_all add: distinct_map_insort_key)

text \<open>The groups that \<open>generate_all_arrivals\<close> returns have pairwise different ids and
  no timestamp set, when the factory starts at id 0 as \<open>run\<close> makes it.\<close>

lemma generated_groups_fresh:
  assumes "generate_all_arrivals slots (gen, np, py) = Some (Inr (groups, st'))"
  shows "distinct (map group_id groups) \<and> (\<forall>g \<in> set groups. pristine g)"
proof -
  obtain all_groups st1 where
    g: "generate_slots slots [] (gen, np, py) = Some (Inr (all_groups, st1))"
    and s: "groups = sort_key arrival_time all_groups"
    using assms
    by (auto simp: generate_all_arrivals_def Let_def split: option.splits sum.splits prod.splits)
  have "ids_from (next_group_id (group_factory gen)) all_groups"
    using generate_slots_ids[OF g, of "next_group_id (group_factory gen)"] by simp
  then have d: "distinct (map group_id all_groups)" and p: "\<forall>g \<in> set all_groups. pristine g"
    using ids_from_distinct by (auto simp: ids_from_def list_all_iff)
  have "distinct (map group_id groups)"
    using d s by (simp add: distinct_map_sort_key)
  then show ?thesis using p s by simp
qed


section \<open>The primitives of the scheduler\<close>

lemma schedule_fields [simp]:
  "now (schedule p d ev s) = now s"
  "procs (schedule p d ev s) = procs s"
  "resources (schedule p d ev s) = resources s"
  "arrival (schedule p d ev s) = arrival s"
  "active_groups (schedule p d ev s) = active_groups s"
  "completed (schedule p d ev s) = completed s"
  "position_snapshots (schedule p d ev s) = position_snapshots s"
  "np_state (schedule p d ev s) = np_state s"
  "area_log (schedule p d ev s) = area_log s"
  "event_queue (schedule p d ev s)
     = insort_key fst ((now s + d, p, eid s), ev) (event_queue s)"
  by (simp_all add: schedule_def)

lemma set_proc_fields [simp]:
  "now (set_proc gid c g s) = now s"
  "procs (set_proc gid c g s) = (procs s)(gid \<mapsto> \<lparr>at_yield = c, the_group = g\<rparr>)"
  "resources (set_proc gid c g s) = resources s"
  "arrival (set_proc gid c g s) = arrival s"
  "active_groups (set_proc gid c g s) = active_groups s"
  "completed (set_proc gid c g s) = completed s"
  "position_snapshots (set_proc gid c g s) = position_snapshots s"
  "np_state (set_proc gid c g s) = np_state s"
  "area_log (set_proc gid c g s) = area_log s"
  "event_queue (set_proc gid c g s) = event_queue s"
  by (simp_all add: set_proc_def)

lemma do_enter_area_fields [simp]:
  "now (do_enter_area z g s) = now s"
  "procs (do_enter_area z g s) = procs s"
  "resources (do_enter_area z g s)
     = enter_area (now s) z (group_id g) (group_size g) (resources s)"
  "arrival (do_enter_area z g s) = arrival s"
  "active_groups (do_enter_area z g s) = active_groups s"
  "completed (do_enter_area z g s) = completed s"
  "position_snapshots (do_enter_area z g s) = position_snapshots s"
  "np_state (do_enter_area z g s) = np_state s"
  "area_log (do_enter_area z g s) = area_log s @ [Enter z (group_id g)]"
  "event_queue (do_enter_area z g s) = event_queue s"
  by (simp_all add: do_enter_area_def)

lemma do_leave_area_fields [simp]:
  "now (do_leave_area z g s) = now s"
  "procs (do_leave_area z g s) = procs s"
  "resources (do_leave_area z g s) = leave_area (now s) z (group_id g) (resources s)"
  "arrival (do_leave_area z g s) = arrival s"
  "active_groups (do_leave_area z g s) = active_groups s"
  "completed (do_leave_area z g s) = completed s"
  "position_snapshots (do_leave_area z g s) = position_snapshots s"
  "np_state (do_leave_area z g s) = np_state s"
  "area_log (do_leave_area z g s) = area_log s @ [Leave z (group_id g)]"
  "event_queue (do_leave_area z g s) = event_queue s"
  by (simp_all add: do_leave_area_def)

lemma schedule_grant_fields [simp]:
  "now (schedule_grant gr s) = now s"
  "procs (schedule_grant gr s) = procs s"
  "resources (schedule_grant gr s) = resources s"
  "arrival (schedule_grant gr s) = arrival s"
  "active_groups (schedule_grant gr s) = active_groups s"
  "completed (schedule_grant gr s) = completed s"
  "position_snapshots (schedule_grant gr s) = position_snapshots s"
  "np_state (schedule_grant gr s) = np_state s"
  "area_log (schedule_grant gr s) = area_log s"
  by (cases gr; simp add: schedule_grant_def)+

lemma timeout_Inr:
  "timeout d p s = Inr s' \<longleftrightarrow> 0 \<le> d \<and> s' = schedule NORMAL d (Resume p) s"
  by (auto simp: timeout_def)

lemma timeout_Inl: "timeout d p s = Inl e \<longleftrightarrow> d < 0 \<and> e = ValueError"
  by (auto simp: timeout_def)

subsection \<open>Growing queues\<close>

lemma queue_grows_sorted:
  "queue_grows t ok q q' \<Longrightarrow> sorted (map fst q) \<Longrightarrow> sorted (map fst q')"
  by (induction rule: queue_grows.induct) (simp_all add: sorted_insort_key)

lemma queue_grows_set:
  "queue_grows t ok q q' \<Longrightarrow> ke \<in> set q' \<Longrightarrow> ke \<in> set q \<or> (t \<le> fst (fst ke) \<and> ok (snd ke))"
  by (induction rule: queue_grows.induct) (auto simp: set_insort_key)

lemma queue_grows_subset: "queue_grows t ok q q' \<Longrightarrow> set q \<subseteq> set q'"
  by (induction rule: queue_grows.induct) (auto simp: set_insort_key)

lemma queue_grows_arrival_events:
  "queue_grows t (\<lambda>ev. ev \<noteq> Resume ArrivalProc \<and> ev \<noteq> Until) q q' \<Longrightarrow>
   arrival_events q' = arrival_events q"
  by (induction rule: queue_grows.induct) (simp_all add: arrival_events_def filter_insort_triv)

lemma queue_grows_weaken:
  "queue_grows t ok q q' \<Longrightarrow> (\<And>ev. ok ev \<Longrightarrow> ok' ev) \<Longrightarrow> queue_grows t ok' q q'"
  by (induction rule: queue_grows.induct) (auto intro: queue_grows.intros)

lemma queue_grows_trans:
  "queue_grows t ok q' q'' \<Longrightarrow> queue_grows t ok q q' \<Longrightarrow> queue_grows t ok q q''"
  by (induction rule: queue_grows.induct) (auto intro: queue_grows.intros)

lemma grows_refl [simp]: "grows ok s s"
  by (simp add: grows_def queue_grows.same)

lemma grows_trans: "grows ok s s1 \<Longrightarrow> grows ok s1 s2 \<Longrightarrow> grows ok s s2"
  by (auto simp: grows_def intro: queue_grows_trans)

lemma grows_weaken: "grows ok s s' \<Longrightarrow> (\<And>ev. ok ev \<Longrightarrow> ok' ev) \<Longrightarrow> grows ok' s s'"
  by (auto simp: grows_def intro: queue_grows_weaken)

lemma grows_schedule:
  "grows ok s x \<Longrightarrow> 0 \<le> d \<Longrightarrow> ok ev \<Longrightarrow> grows ok s (schedule p d ev x)"
  by (auto simp: grows_def intro: queue_grows.more)

lemma grows_set_proc: "grows ok s x \<Longrightarrow> grows ok s (set_proc gid c g x)"
  by (simp add: grows_def)

lemma grows_enter: "grows ok s x \<Longrightarrow> grows ok s (do_enter_area z g x)"
  by (simp add: grows_def)

lemma grows_leave: "grows ok s x \<Longrightarrow> grows ok s (do_leave_area z g x)"
  by (simp add: grows_def)

lemma grows_schedule_grant:
  "grows ok s x \<Longrightarrow> (\<And>gid. ok (Resume (GroupProc gid))) \<Longrightarrow> grows ok s (schedule_grant gr x)"
  by (cases gr) (auto simp: schedule_grant_def intro: grows_schedule)

lemma grows_updates:
  "grows ok s x \<Longrightarrow> grows ok s (x\<lparr>resources := r\<rparr>)"
  "grows ok s x \<Longrightarrow> grows ok s (x\<lparr>np_state := n\<rparr>)"
  "grows ok s x \<Longrightarrow> grows ok s (x\<lparr>active_groups := a\<rparr>)"
  "grows ok s x \<Longrightarrow> grows ok s (x\<lparr>completed := c\<rparr>)"
  "grows ok s x \<Longrightarrow> grows ok s (x\<lparr>completed := c, active_groups := a\<rparr>)"
  "grows ok s x \<Longrightarrow> grows ok s (x\<lparr>position_snapshots := ps\<rparr>)"
  "grows ok s x \<Longrightarrow> grows ok s (x\<lparr>arrival := ar\<rparr>)"
  by (simp_all add: grows_def)

lemmas grows_intros =
  grows_schedule grows_set_proc grows_enter grows_leave grows_schedule_grant grows_updates

subsection \<open>Quiet steps\<close>

lemma quiet_refl [simp]: "quiet s s"
  by (simp add: quiet_def)

lemma quiet_trans: "quiet s s1 \<Longrightarrow> quiet s1 s2 \<Longrightarrow> quiet s s2"
  by (auto simp: quiet_def intro: grows_trans)

lemma quiet_schedule:
  "quiet s x \<Longrightarrow> 0 \<le> d \<Longrightarrow> ev \<noteq> Resume ArrivalProc \<Longrightarrow> ev \<noteq> Until \<Longrightarrow>
   quiet s (schedule p d ev x)"
  by (auto simp: quiet_def intro: grows_schedule)

lemma quiet_schedule_grant: "quiet s x \<Longrightarrow> quiet s (schedule_grant gr x)"
  by (auto simp: quiet_def intro: grows_schedule_grant)

lemma quiet_steps:
  "quiet s x \<Longrightarrow> quiet s (set_proc gid c g x)"
  "quiet s x \<Longrightarrow> quiet s (do_enter_area z g x)"
  "quiet s x \<Longrightarrow> quiet s (do_leave_area z g x)"
  "quiet s x \<Longrightarrow> quiet s (x\<lparr>resources := r\<rparr>)"
  "quiet s x \<Longrightarrow> quiet s (x\<lparr>np_state := n\<rparr>)"
  "quiet s x \<Longrightarrow> quiet s (x\<lparr>active_groups := a\<rparr>)"
  "quiet s x \<Longrightarrow> quiet s (x\<lparr>completed := c', active_groups := a\<rparr>)"
  "quiet s x \<Longrightarrow> quiet s (x\<lparr>position_snapshots := ps\<rparr>)"
  by (simp_all add: quiet_def grows_def)

lemmas quiet_intros = quiet_schedule quiet_schedule_grant quiet_steps

subsection \<open>The processes only add events\<close>

lemma enter_security_grows:
  "enter_security eng g s = Inr s' \<Longrightarrow> quiet s s'"
  by (auto simp: enter_security_def Let_def timeout_Inr intro!: quiet_intros)

lemma begin_stage_grows:
  "begin_stage eng st g s = Inr s' \<Longrightarrow> quiet s s'"
  by (auto simp: begin_stage_def Let_def split_beta intro!: quiet_intros)

lemma baggage_process_grows:
  "baggage_process eng g s = Inr s' \<Longrightarrow> quiet s s'"
  by (auto simp: baggage_process_def split: BaggageDropType.splits
           intro: enter_security_grows begin_stage_grows)

lemma after_stage_grows:
  "after_stage eng st g s = Inr s' \<Longrightarrow> quiet s s'"
  by (cases st) (auto intro: enter_security_grows begin_stage_grows baggage_process_grows)



lemma group_resume_grows:
  assumes "group_resume eng gid s = Inr s'"
  shows "quiet s s'"
proof (cases "procs s gid")
  case None
  then show ?thesis using assms by (simp add: group_resume_def)
next
  case (Some p)
  show ?thesis
  proof (cases "at_yield p")
    case AtStart
    then show ?thesis
      using assms Some
      by (auto simp: group_resume_def Let_def timeout_Inr split: CheckinType.splits
               intro!: quiet_intros
               intro: quiet_trans[OF _ begin_stage_grows, rotated])
  next
    case OnlineDelay
    then show ?thesis
      using assms Some by (auto simp: group_resume_def intro: baggage_process_grows)
  next
    case (Requesting st)
    then show ?thesis
      using assms Some
      by (auto simp: group_resume_def Let_def timeout_Inr split: sum.splits prod.splits
               intro!: quiet_intros)
  next
    case (InService st)
    let ?s3 = "do_leave_area (stage_area st) (set_end st (now s) (the_group p))
                 (schedule NORMAL 0 (StationRelease st)
                    (s\<lparr>resources := set_station st
                         (release (now s) (get_station st (resources s)) gid) (resources s)\<rparr>))"
    have a: "after_stage eng st (set_end st (now s) (the_group p)) ?s3 = Inr s'"
      using assms Some InService by (simp add: group_resume_def Let_def)
    have "quiet s ?s3"
      by (auto intro!: quiet_intros)
    then show ?thesis using after_stage_grows[OF a] by (rule quiet_trans)
  next
    case SecurityDelay
    then show ?thesis
      using assms Some
      by (auto simp: group_resume_def Let_def intro!: quiet_intros)
  next
    case Finished
    then show ?thesis using assms Some by (simp add: group_resume_def)
  qed
qed

lemma sampler_resume_grows:
  "sampler_resume iv e s = Inr s' \<Longrightarrow> quiet s s'"
  by (auto simp: sampler_resume_def timeout_Inr split: if_splits intro!: quiet_intros)

lemma station_release_grows:
  "quiet s (schedule_grant gr (s\<lparr>resources := r\<rparr>))"
  by (auto intro!: quiet_intros)

section \<open>Timestamps of a group\<close>

lemma stage_stamps_field_group: "stage_stamps (field_group st) g = stage_stamps st g"
  by (cases st) simp_all

lemma stage_stamps_update_position [simp]:
  "stage_stamps st (update_position nds n g) = stage_stamps st g"
  by (cases st) (simp_all add: update_position_def split: option.splits)

lemma update_position_fields [simp]:
  "security_arrival (update_position nds n g) = security_arrival g"
  "arrival_time (update_position nds n g) = arrival_time g"
  "group_id (update_position nds n g) = group_id g"
  "group_size (update_position nds n g) = group_size g"
  "core (update_position nds n g) = core g"
  "checkin_type (update_position nds n g) = checkin_type g"
  "baggage_drop_type (update_position nds n g) = baggage_drop_type g"
  by (simp_all add: update_position_def core_def split: option.splits)

lemma pristine_update_position [simp]: "pristine (update_position nds n g) = pristine g"
  by (simp add: update_position_def pristine_def split: option.splits)

lemma stage_stamps_set_queue_enter:
  "stage_stamps st' (set_queue_enter st t g) =
     (if field_group st' = field_group st then (Some t, snd (stage_stamps st' g))
      else stage_stamps st' g)"
  by (cases st; cases st'; simp)

lemma stage_stamps_set_start:
  "stage_stamps st' (set_start st t g) =
     (if field_group st' = field_group st
      then (fst (stage_stamps st' g), Some t, snd (snd (stage_stamps st' g)))
      else stage_stamps st' g)"
  by (cases st; cases st'; simp)

lemma stage_stamps_set_end:
  "stage_stamps st' (set_end st t g) =
     (if field_group st' = field_group st
      then (fst (stage_stamps st' g), fst (snd (stage_stamps st' g)), Some t)
      else stage_stamps st' g)"
  by (cases st; cases st'; simp)

lemma set_stamp_fields [simp]:
  "security_arrival (set_queue_enter st t g) = security_arrival g"
  "security_arrival (set_start st t g) = security_arrival g"
  "security_arrival (set_end st t g) = security_arrival g"
  "arrival_time (set_queue_enter st t g) = arrival_time g"
  "arrival_time (set_start st t g) = arrival_time g"
  "arrival_time (set_end st t g) = arrival_time g"
  "group_id (set_queue_enter st t g) = group_id g"
  "group_id (set_start st t g) = group_id g"
  "group_id (set_end st t g) = group_id g"
  "group_size (set_queue_enter st t g) = group_size g"
  "core (set_queue_enter st t g) = core g"
  "core (set_start st t g) = core g"
  "core (set_end st t g) = core g"
  by (cases st; simp add: core_def)+

lemma stage_stamps_security [simp]:
  "stage_stamps st (g\<lparr>security_arrival := x\<rparr>) = stage_stamps st g"
  by (cases st) simp_all

lemma core_security [simp]: "core (g\<lparr>security_arrival := x\<rparr>) = core g"
  by (simp add: core_def)

lemma pristine_stamps: "pristine g \<Longrightarrow> stage_stamps st g = (None, None, None)"
  by (cases st) (simp_all add: pristine_def)

lemma stamps_trivial [simp]:
  "stamps_ordered (None, None, None)" "stamps_before t (None, None, None)"
  by (simp_all add: stamps_ordered_def stamps_before_def)

lemma stamps_before_mono: "stamps_before t qse \<Longrightarrow> t \<le> t' \<Longrightarrow> stamps_before t' qse"
  by (cases qse) (auto simp: stamps_before_def split: option.splits)

lemma stamps_ok_iff:
  "stamps_ok t g =
     (\<forall>st. stamps_ordered (stage_stamps st g) \<and> stamps_before t (stage_stamps st g))"
proof
  assume a: "stamps_ok t g"
  show "\<forall>st. stamps_ordered (stage_stamps st g) \<and> stamps_before t (stage_stamps st g)"
  proof
    fix st
    show "stamps_ordered (stage_stamps st g) \<and> stamps_before t (stage_stamps st g)"
      using a by (cases st) (simp_all add: stamps_ok_def)
  qed
next
  assume "\<forall>st. stamps_ordered (stage_stamps st g) \<and> stamps_before t (stage_stamps st g)"
  then show "stamps_ok t g"
    unfolding stamps_ok_def list_all_iff by blast
qed

lemma stamps_ok_mono: "stamps_ok t g \<Longrightarrow> t \<le> t' \<Longrightarrow> stamps_ok t' g"
  unfolding stamps_ok_iff by (blast intro: stamps_before_mono)

lemma stamps_ok_pristine: "pristine g \<Longrightarrow> stamps_ok t g"
  unfolding stamps_ok_iff by (simp add: pristine_stamps)

lemma stamps_ok_update_position [simp]: "stamps_ok t (update_position nds n g) = stamps_ok t g"
  unfolding stamps_ok_iff by simp

lemma stamps_ok_security [simp]: "stamps_ok t (g\<lparr>security_arrival := x\<rparr>) = stamps_ok t g"
  unfolding stamps_ok_iff by simp

lemma pc_inv_update_position [simp]: "pc_inv c (update_position nds n g) = pc_inv c g"
  by (cases c) (simp_all add: unvisited_def)

lemma group_inv_mono: "group_inv t c g \<Longrightarrow> t \<le> t' \<Longrightarrow> group_inv t' c g"
  unfolding group_inv_def
  by (cases "security_arrival g") (auto intro: stamps_ok_mono)

lemma ready_mono: "ready t sts g \<Longrightarrow> t \<le> t' \<Longrightarrow> ready t' sts g"
  by (auto simp: ready_def intro: stamps_ok_mono)

lemma pristine_ready:
  "pristine g \<Longrightarrow> arrival_time g \<le> t \<Longrightarrow> ready t sts g"
  by (simp add: ready_def pristine_stamps unvisited_def list_all_iff stamps_ok_pristine)
     (simp add: pristine_def)

lemma ready_update_position [simp]: "ready t sts (update_position nds n g) = ready t sts g"
  by (simp add: ready_def unvisited_def)

lemma later_stages_other: "st' \<in> set (later_stages st) \<Longrightarrow> field_group st' \<noteq> field_group st"
  by (cases st; cases st'; simp)

text \<open>Writing the timestamps of one visit leaves the order of all timestamps intact
  when the new triple is in order.\<close>

lemma stamps_ok_write:
  assumes "stamps_ok t g" "t \<le> t'"
    and "\<And>st'. stage_stamps st' g' =
            (if field_group st' = field_group st then new else stage_stamps st' g)"
    and "stamps_ordered new" "stamps_before t' new"
  shows "stamps_ok t' g'"
  unfolding stamps_ok_iff
proof
  fix st'
  show "stamps_ordered (stage_stamps st' g') \<and> stamps_before t' (stage_stamps st' g')"
  proof (cases "field_group st' = field_group st")
    case True
    then show ?thesis using assms(3)[of st'] assms(4,5) by simp
  next
    case False
    have "stamps_ordered (stage_stamps st' g)" "stamps_before t (stage_stamps st' g)"
      using assms(1) unfolding stamps_ok_iff by blast+
    then show ?thesis
      using False assms(2) assms(3)[of st'] stamps_before_mono[of t "stage_stamps st' g" t']
      by simp
  qed
qed

lemma ready_begin:
  assumes "ready t sts g" "st \<in> set sts" "set (later_stages st) \<subseteq> set sts"
  shows "group_inv t (Requesting st) (set_queue_enter st t g)"
proof -
  let ?g = "set_queue_enter st t g"
  have u: "stage_stamps st g = (None, None, None)"
    using assms(1,2) by (auto simp: ready_def list_all_iff unvisited_def)
  have w: "\<And>st'. stage_stamps st' ?g =
             (if field_group st' = field_group st then (Some t, None, None) else stage_stamps st' g)"
  proof -
    fix st'
    have "field_group st' = field_group st \<Longrightarrow> stage_stamps st' g = (None, None, None)"
      using u by (metis stage_stamps_field_group)
    then show "stage_stamps st' ?g =
             (if field_group st' = field_group st then (Some t, None, None) else stage_stamps st' g)"
      by (simp add: stage_stamps_set_queue_enter)
  qed
  have l: "list_all (\<lambda>st'. unvisited st' ?g) (later_stages st)"
    using assms(1,3) later_stages_other[of _ st]
    by (auto simp: ready_def list_all_iff unvisited_def w)
  have o: "stamps_ok t ?g"
    by (rule stamps_ok_write[where g = g and st = st and new = "(Some t, None, None)" and t = t])
       (use assms(1) w in \<open>simp_all add: ready_def stamps_ordered_def stamps_before_def\<close>)
  have p: "pc_inv (Requesting st) ?g"
    using l assms(1) by (simp add: w ready_def)
  show ?thesis
    using assms(1) o p by (simp add: group_inv_def ready_def)
qed

lemma requesting_start:
  assumes "group_inv t (Requesting st) g" "t \<le> t'"
  shows "group_inv t' (InService st) (set_start st t' g)"
proof -
  let ?g = "set_start st t' g"
  obtain tq where q: "stage_stamps st g = (Some tq, None, None)"
    using assms(1) by (cases "stage_stamps st g") (auto simp: group_inv_def)
  have "stamps_before t (stage_stamps st g)"
    using assms(1) unfolding group_inv_def stamps_ok_iff by blast
  then have tq: "tq \<le> t'" using q assms(2) by (simp add: stamps_before_def)
  have w: "\<And>st'. stage_stamps st' ?g =
             (if field_group st' = field_group st then (Some tq, Some t', None)
              else stage_stamps st' g)"
  proof -
    fix st'
    have "field_group st' = field_group st \<Longrightarrow> stage_stamps st' g = (Some tq, None, None)"
      using q by (metis stage_stamps_field_group)
    then show "stage_stamps st' ?g =
             (if field_group st' = field_group st then (Some tq, Some t', None)
              else stage_stamps st' g)"
      by (simp add: stage_stamps_set_start)
  qed
  have l: "list_all (\<lambda>st'. unvisited st' ?g) (later_stages st)"
    using assms(1) later_stages_other[of _ st]
    by (auto simp: group_inv_def list_all_iff unvisited_def w)
  have o: "stamps_ok t' ?g"
    by (rule stamps_ok_write[where g = g and st = st and new = "(Some tq, Some t', None)" and t = t])
       (use assms w tq in \<open>simp_all add: group_inv_def stamps_ordered_def stamps_before_def\<close>)
  have p: "pc_inv (InService st) ?g"
    using l assms(1) by (simp add: w group_inv_def)
  show ?thesis
    using assms o p by (simp add: group_inv_def)
qed

lemma in_service_end:
  assumes "group_inv t (InService st) g" "t \<le> t'"
  shows "ready t' (later_stages st) (set_end st t' g)"
proof -
  let ?g = "set_end st t' g"
  obtain q ts where q: "stage_stamps st g = (q, Some ts, None)"
    using assms(1) by (cases "stage_stamps st g") (auto simp: group_inv_def)
  have "stamps_before t (stage_stamps st g)" "stamps_ordered (stage_stamps st g)"
    using assms(1) unfolding group_inv_def stamps_ok_iff by blast+
  then have ts: "ts \<le> t'" and qo: "\<exists>tq. q = Some tq \<and> tq \<le> ts \<and> tq \<le> t'"
    using q assms(2)
    by (auto simp: stamps_before_def stamps_ordered_def split: option.splits)
  have w: "\<And>st'. stage_stamps st' ?g =
             (if field_group st' = field_group st then (q, Some ts, Some t')
              else stage_stamps st' g)"
  proof -
    fix st'
    have "field_group st' = field_group st \<Longrightarrow> stage_stamps st' g = (q, Some ts, None)"
      using q by (metis stage_stamps_field_group)
    then show "stage_stamps st' ?g =
             (if field_group st' = field_group st then (q, Some ts, Some t')
              else stage_stamps st' g)"
      by (simp add: stage_stamps_set_end)
  qed
  have l: "list_all (\<lambda>st'. unvisited st' ?g) (later_stages st)"
    using assms(1) later_stages_other[of _ st]
    by (auto simp: group_inv_def list_all_iff unvisited_def w)
  have o: "stamps_ok t' ?g"
    by (rule stamps_ok_write[where g = g and st = st and new = "(q, Some ts, Some t')" and t = t])
       (use assms w ts qo in \<open>auto simp: group_inv_def stamps_ordered_def stamps_before_def\<close>)
  show ?thesis
    using assms l o by (simp add: ready_def group_inv_def)
qed

lemma ready_security: "ready t sts g \<Longrightarrow> group_inv t SecurityDelay g"
  by (simp add: ready_def group_inv_def)

lemma security_finish:
  assumes "group_inv t SecurityDelay g" "t \<le> t'"
  shows "group_inv t' Finished (g\<lparr>security_arrival := Some t'\<rparr>)"
  using assms by (auto simp: group_inv_def intro: stamps_ok_mono)

lemma pristine_group_inv:
  "pristine g \<Longrightarrow> arrival_time g \<le> t \<Longrightarrow> group_inv t AtStart g"
  by (simp add: group_inv_def stamps_ok_pristine) (simp add: pristine_def)

lemma at_start_online:
  "group_inv t AtStart g \<Longrightarrow> group_inv t OnlineDelay (update_position nds n g)"
  by (cases "security_arrival g") (simp_all add: group_inv_def)

lemma waiting_ready:
  "group_inv t c g \<Longrightarrow> c = AtStart \<or> c = OnlineDelay \<Longrightarrow> t \<le> t' \<Longrightarrow> ready t' sts g"
  by (auto simp: group_inv_def intro: pristine_ready)

section \<open>Area occupancy\<close>

lemma set_station_areas [simp]:
  "groups_in_area (set_station st m res) = groups_in_area res"
  "area_occupancy_history (set_station st m res) = area_occupancy_history res"
  by (cases st; simp)+

lemma areas_inv_cong:
  "groups_in_area res' = groups_in_area res \<Longrightarrow>
   area_occupancy_history res' = area_occupancy_history res \<Longrightarrow>
   areas_inv Z res' l = areas_inv Z res l"
  by (simp add: areas_inv_def)

lemma stage_area_known: "stage_area st \<in> dom initial_areas"
  by (cases st) (simp_all add: initial_areas_def)

lemma security_front_known: "''security_front'' \<in> dom initial_areas"
  by (simp add: initial_areas_def)

lemma enters_append [simp]:
  "enters z (l @ [Enter z' gid]) = (if z' = z then Suc (enters z l) else enters z l)"
  "enters z (l @ [Leave z' gid]) = enters z l"
  by (simp_all add: enters_def)

lemma leaves_append [simp]:
  "leaves z (l @ [Leave z' gid]) = (if z' = z then Suc (leaves z l) else leaves z l)"
  "leaves z (l @ [Enter z' gid]) = leaves z l"
  by (simp_all add: leaves_def)

lemma enter_area_known:
  assumes "groups_in_area res z = Some members"
  shows "groups_in_area (enter_area t z gid gs res)
           = (groups_in_area res)(z \<mapsto> members @ [(gid, gs)])"
    and "area_occupancy_history (enter_area t z gid gs res)
           = area_occupancy_history res @
             [\<lparr>occ_time = t, area_name = z, group_count = int (length (members @ [(gid, gs)])),
               pax_count_a = sum_list (map snd (members @ [(gid, gs)]))\<rparr>]"
  using assms by (simp_all add: enter_area_def record_area_occupancy_def)

lemma leave_area_known:
  assumes "groups_in_area res z = Some members"
  shows "groups_in_area (leave_area t z gid res)
           = (groups_in_area res)(z \<mapsto> filter (\<lambda>(g, gs). g \<noteq> gid) members)"
    and "area_occupancy_history (leave_area t z gid res)
           = area_occupancy_history res @
             [\<lparr>occ_time = t, area_name = z,
               group_count = int (length (filter (\<lambda>(g, gs). g \<noteq> gid) members)),
               pax_count_a = sum_list (map snd (filter (\<lambda>(g, gs). g \<noteq> gid) members))\<rparr>]"
  using assms by (simp_all add: leave_area_def record_area_occupancy_def)

lemma filter_out_member:
  "distinct (map fst l) \<Longrightarrow> gid \<in> fst ` set l \<Longrightarrow>
   Suc (length (filter (\<lambda>(g, gs). g \<noteq> gid) l)) = length l"
proof (induction l)
  case Nil
  then show ?case by simp
next
  case (Cons a l)
  show ?case
  proof (cases "fst a = gid")
    case True
    then have "gid \<notin> fst ` set l" using Cons.prems(1) by auto
    then have "filter (\<lambda>a. fst a \<noteq> gid) l = l"
      by (force simp: filter_id_conv)
    then show ?thesis using True by (simp add: split_beta)
  next
    case False
    then have "gid \<in> fst ` set l" using Cons.prems(2) by auto
    then show ?thesis using False Cons by (simp add: split_beta)
  qed
qed

lemma filter_out_set:
  "fst ` set (filter (\<lambda>(g, gs). g \<noteq> gid) l) = fst ` set l - {gid}"
  by (auto simp: image_iff)

lemma areas_inv_enter:
  assumes "areas_inv Z res l" "Z gid = None" "z \<in> dom initial_areas"
  shows "areas_inv (Z(gid := Some z)) (enter_area t z gid gs res) (l @ [Enter z gid])"
proof -
  have "z \<in> dom (groups_in_area res)"
    using assms(1,3) by (simp add: areas_inv_def)
  then obtain members where m: "groups_in_area res z = Some members"
    by blast
  have d: "distinct (map fst members)" "fst ` set members = {g. Z g = Some z}"
    "enters z l = leaves z l + length members"
    using assms(1) m by (auto simp: areas_inv_def)
  have nin: "gid \<notin> fst ` set members" using d(2) assms(2) by simp
  show ?thesis
    unfolding areas_inv_def enter_area_known[OF m]
  proof (intro conjI allI impI)
    show "dom ((groups_in_area res)(z \<mapsto> members @ [(gid, gs)])) = dom initial_areas"
      using assms(1) m by (auto simp: areas_inv_def)
  next
    fix z' ms assume a: "((groups_in_area res)(z \<mapsto> members @ [(gid, gs)])) z' = Some ms"
    show "distinct (map fst ms)"
      using a d(1) nin assms(1) by (auto simp: areas_inv_def split: if_splits)
    show "set (map fst ms) = {g. (Z(gid := Some z)) g = Some z'}"
    proof (cases "z' = z")
      case True
      have "\<And>g. (g \<in> fst ` set members) = (Z g = Some z)"
        using d(2) by (simp add: set_eq_iff)
      then have "\<And>g b. (g, b) \<in> set members \<Longrightarrow> Z g = Some z"
        and "\<And>g. Z g = Some z \<Longrightarrow> g \<in> fst ` set members"
        by (force, blast)
      then show ?thesis using True a assms(2) by (auto simp: image_Un)
    next
      case False
      then have "set (map fst ms) = {g. Z g = Some z'}"
        using a assms(1) by (simp add: areas_inv_def)
      then show ?thesis using False assms(2) by auto
    qed
    show "enters z' (l @ [Enter z gid]) = leaves z' (l @ [Enter z gid]) + length ms"
      using a d(3) assms(1) by (auto simp: areas_inv_def split: if_splits)
  next
    show "\<forall>a \<in> set (area_occupancy_history res @
             [\<lparr>occ_time = t, area_name = z, group_count = int (length (members @ [(gid, gs)])),
               pax_count_a = sum_list (map snd (members @ [(gid, gs)]))\<rparr>]). 0 \<le> group_count a"
      using assms(1) by (auto simp: areas_inv_def)
  qed
qed

lemma areas_inv_leave:
  assumes "areas_inv Z res l" "Z gid = Some z" "z \<in> dom initial_areas"
  shows "areas_inv (Z(gid := None)) (leave_area t z gid res) (l @ [Leave z gid])"
proof -
  have "z \<in> dom (groups_in_area res)"
    using assms(1,3) by (simp add: areas_inv_def)
  then obtain members where m: "groups_in_area res z = Some members"
    by blast
  have d: "distinct (map fst members)" "fst ` set members = {g. Z g = Some z}"
    "enters z l = leaves z l + length members"
    using assms(1) m by (auto simp: areas_inv_def)
  have isin: "gid \<in> fst ` set members" using d(2) assms(2) by simp
  let ?f = "filter (\<lambda>(g, gs). g \<noteq> gid) members"
  have len: "Suc (length ?f) = length members"
    using filter_out_member[OF d(1) isin] .
  show ?thesis
    unfolding areas_inv_def leave_area_known[OF m]
  proof (intro conjI allI impI)
    show "dom ((groups_in_area res)(z \<mapsto> ?f)) = dom initial_areas"
      using assms(1) m by (auto simp: areas_inv_def)
  next
    fix z' ms assume a: "((groups_in_area res)(z \<mapsto> ?f)) z' = Some ms"
    show "distinct (map fst ms)"
      using a d(1) assms(1) by (auto simp: areas_inv_def distinct_map_filter split: if_splits)
    show "set (map fst ms) = {g. (Z(gid := None)) g = Some z'}"
    proof (cases "z' = z")
      case True
      then have "ms = ?f" using a by simp
      then have "set (map fst ms) = fst ` set members - {gid}"
        using filter_out_set[of gid members] by simp
      moreover have "\<And>g. (g \<in> fst ` set members) = (Z g = Some z)"
        using d(2) by (simp add: set_eq_iff)
      ultimately show ?thesis using True by (auto simp: set_eq_iff)
    next
      case False
      then have "set (map fst ms) = {g. Z g = Some z'}"
        using a assms(1) by (simp add: areas_inv_def)
      then show ?thesis using False assms(2) by auto
    qed
    show "enters z' (l @ [Leave z gid]) = leaves z' (l @ [Leave z gid]) + length ms"
    proof (cases "z' = z")
      case True
      then have "ms = ?f" using a by simp
      then show ?thesis using True d(3) len by simp
    next
      case False
      then show ?thesis using a assms(1) by (simp add: areas_inv_def)
    qed
  next
    show "\<forall>a \<in> set (area_occupancy_history res @
             [\<lparr>occ_time = t, area_name = z, group_count = int (length ?f),
               pax_count_a = sum_list (map snd ?f)\<rparr>]). 0 \<le> group_count a"
      using assms(1) by (auto simp: areas_inv_def)
  qed
qed

lemma areas_inv_same_zones:
  "areas_inv Z res l \<Longrightarrow> (\<And>gid. Z' gid = Z gid) \<Longrightarrow> areas_inv Z' res l"
  by (simp add: areas_inv_def)

section \<open>The processes keep the invariant\<close>

lemma zones_update:
  "procs s' = (procs s)(gid \<mapsto> \<lparr>at_yield = c, the_group = g\<rparr>) \<Longrightarrow>
   zones s' = (zones s)(gid := zone_of c)"
  by (auto simp: zones_def fun_eq_iff)

lemma zones_cong: "procs s' = procs s \<Longrightarrow> zones s' = zones s"
  by (simp add: zones_def fun_eq_iff)

lemma full_inv_cong:
  assumes "procs s' = procs s" "now s' = now s" "completed s' = completed s"
    "arrival s' = arrival s" "groups_in_area (resources s') = groups_in_area (resources s)"
    "area_occupancy_history (resources s') = area_occupancy_history (resources s)"
    "area_log s' = area_log s"
  shows "full_inv groups s' = full_inv groups s"
  using assms zones_cong[of s' s]
  by (simp add: full_inv_def procs_inv_def completed_ok_def pending_ok_def areas_inv_def)

lemma mid_inv_cong:
  assumes "procs s' = procs s" "now s' = now s" "completed s' = completed s"
    "arrival s' = arrival s" "groups_in_area (resources s') = groups_in_area (resources s)"
    "area_occupancy_history (resources s') = area_occupancy_history (resources s)"
    "area_log s' = area_log s"
  shows "mid_inv groups gid g sts s' = mid_inv groups gid g sts s"
  using assms zones_cong[of s' s]
  by (simp add: mid_inv_def completed_ok_def pending_ok_def areas_inv_def)

lemma entry_ok_mono: "entry_ok groups t gid p \<Longrightarrow> t \<le> t' \<Longrightarrow> entry_ok groups t' gid p"
  by (auto simp: entry_ok_def intro: group_inv_mono)

text \<open>The clock moving forward keeps the invariant.\<close>

lemma full_inv_later:
  assumes "full_inv groups s" "now s \<le> t"
  shows "full_inv groups (s\<lparr>now := t, event_queue := q\<rparr>)"
  using assms zones_cong[of "s\<lparr>now := t, event_queue := q\<rparr>" s]
  by (auto simp: full_inv_def procs_inv_def completed_ok_def pending_ok_def
           intro: entry_ok_mono)

text \<open>Replacing the entry of one process.\<close>

lemma update_entry_full:
  assumes others: "\<forall>gid' p. gid' \<noteq> gid \<longrightarrow> procs s gid' = Some p \<longrightarrow> entry_ok groups (now s) gid' p"
    and c: "completed_ok s" and p: "pending_ok groups s" and live: "procs s gid \<noteq> None"
    and new: "procs s' = (procs s)(gid \<mapsto> \<lparr>at_yield = c, the_group = g'\<rparr>)"
      "now s' = now s" "arrival s' = arrival s"
    and compl: "completed s' = completed s \<and> gid \<notin> set (completed s)
                \<or> completed s' = completed s @ [gid] \<and> c = Finished"
    and entry: "entry_ok groups (now s) gid \<lparr>at_yield = c, the_group = g'\<rparr>"
    and areas: "areas_inv ((zones s)(gid := zone_of c)) (resources s') (area_log s')"
  shows "full_inv groups s'"
proof -
  have e: "\<forall>gid' q. procs s' gid' = Some q \<longrightarrow> entry_ok groups (now s') gid' q"
    using others new entry by auto
  have co: "completed_ok s'"
    using c compl new(1) unfolding completed_ok_def by auto
  have pe: "pending_ok groups s'"
    using p live new(1,3) unfolding pending_ok_def by auto
  have "zones s' = (zones s)(gid := zone_of c)"
    using new(1) by (rule zones_update)
  then show ?thesis
    using e co pe areas by (simp add: full_inv_def procs_inv_def)
qed

lemma full_inv_parts:
  assumes "full_inv groups s" "procs s gid = Some p"
  shows "\<forall>gid' q. gid' \<noteq> gid \<longrightarrow> procs s gid' = Some q \<longrightarrow> entry_ok groups (now s) gid' q"
    and "completed_ok s" and "pending_ok groups s" and "procs s gid \<noteq> None"
    and "entry_ok groups (now s) gid p"
    and "at_yield p \<noteq> Finished \<Longrightarrow> gid \<notin> set (completed s)"
    and "areas_inv (zones s) (resources s) (area_log s)"
    and "zones s gid = zone_of (at_yield p)"
  using assms
  by (auto simp: full_inv_def procs_inv_def completed_ok_def zones_def)

lemma mid_inv_parts:
  assumes "mid_inv groups gid g sts s"
  shows "\<forall>gid' q. gid' \<noteq> gid \<longrightarrow> procs s gid' = Some q \<longrightarrow> entry_ok groups (now s) gid' q"
    and "completed_ok s" and "pending_ok groups s" and "procs s gid \<noteq> None"
    and "gid \<notin> set (completed s)" and "ready (now s) sts g"
    and "group_id g = gid" and "core g \<in> core ` set groups"
    and "areas_inv ((zones s)(gid := None)) (resources s) (area_log s)"
  using assms by (auto simp: mid_inv_def)

lemma begin_stage_shape:
  assumes "begin_stage eng st g s = Inr s'"
  shows "procs s' = (procs s)(group_id g \<mapsto>
           \<lparr>at_yield = Requesting st,
            the_group = set_queue_enter st (now s) (update_position (nodes eng) (stage_node st) g)\<rparr>)"
    and "now s' = now s" and "arrival s' = arrival s" and "completed s' = completed s"
    and "groups_in_area (resources s')
           = groups_in_area (enter_area (now s) (stage_area st) (group_id g) (group_size g) (resources s))"
    and "area_occupancy_history (resources s')
           = area_occupancy_history (enter_area (now s) (stage_area st) (group_id g) (group_size g) (resources s))"
    and "area_log s' = area_log s @ [Enter (stage_area st) (group_id g)]"
  using assms by (auto simp: begin_stage_def Let_def split_beta)

lemma enter_security_shape:
  assumes "enter_security eng g s = Inr s'"
  shows "procs s' = (procs s)(group_id g \<mapsto>
           \<lparr>at_yield = SecurityDelay,
            the_group = update_position (nodes eng) ''security_gate'' g\<rparr>)"
    and "now s' = now s" and "arrival s' = arrival s" and "completed s' = completed s"
    and "resources s'
           = enter_area (now s) ''security_front'' (group_id g) (group_size g) (resources s)"
    and "area_log s' = area_log s @ [Enter ''security_front'' (group_id g)]"
  using assms by (auto simp: enter_security_def Let_def timeout_Inr)

lemma begin_stage_inv:
  assumes m: "mid_inv groups gid g sts s" and st: "st \<in> set sts"
    "set (later_stages st) \<subseteq> set sts" and b: "begin_stage eng st g s = Inr s'"
  shows "full_inv groups s'"
proof -
  note mp = mid_inv_parts[OF m]
  note sh = begin_stage_shape[OF b]
  let ?g = "set_queue_enter st (now s) (update_position (nodes eng) (stage_node st) g)"
  have gi: "group_inv (now s) (Requesting st) ?g"
    using ready_begin[of "now s" sts "update_position (nodes eng) (stage_node st) g" st] mp(6) st
    by simp
  have en: "entry_ok groups (now s) gid \<lparr>at_yield = Requesting st, the_group = ?g\<rparr>"
    using gi mp(7,8) by (simp add: entry_ok_def)
  have "areas_inv (((zones s)(gid := None))(gid := Some (stage_area st)))
          (enter_area (now s) (stage_area st) gid (group_size g) (resources s))
          (area_log s @ [Enter (stage_area st) gid])"
    by (rule areas_inv_enter[OF mp(9) _ stage_area_known]) simp
  then have ar: "areas_inv ((zones s)(gid := zone_of (Requesting st))) (resources s') (area_log s')"
    using sh(5,6,7) mp(7) by (simp add: areas_inv_cong[of "resources s'"])
  show ?thesis
    by (rule update_entry_full[OF mp(1,2,3,4) _ sh(2,3) _ en ar])
       (use sh(1,4) mp(5,7) in auto)
qed

lemma enter_security_inv:
  assumes m: "mid_inv groups gid g sts s" and b: "enter_security eng g s = Inr s'"
  shows "full_inv groups s'"
proof -
  note mp = mid_inv_parts[OF m]
  note sh = enter_security_shape[OF b]
  let ?g = "update_position (nodes eng) ''security_gate'' g"
  have gi: "group_inv (now s) SecurityDelay ?g"
    using ready_security[of "now s" sts ?g] mp(6) by simp
  have en: "entry_ok groups (now s) gid \<lparr>at_yield = SecurityDelay, the_group = ?g\<rparr>"
    using gi mp(7,8) by (simp add: entry_ok_def)
  have "areas_inv (((zones s)(gid := None))(gid := Some ''security_front''))
          (enter_area (now s) ''security_front'' gid (group_size g) (resources s))
          (area_log s @ [Enter ''security_front'' gid])"
    by (rule areas_inv_enter[OF mp(9) _ security_front_known]) simp
  then have ar: "areas_inv ((zones s)(gid := zone_of SecurityDelay)) (resources s') (area_log s')"
    using sh(5,6) mp(7) by simp
  show ?thesis
    by (rule update_entry_full[OF mp(1,2,3,4) _ sh(2,3) _ en ar])
       (use sh(1,4) mp(5,7) in auto)
qed

lemma baggage_process_inv:
  assumes "mid_inv groups gid g [BaggageCounter, TagKiosk, DropPoint] s"
    and "baggage_process eng g s = Inr s'"
  shows "full_inv groups s'"
proof (cases "baggage_drop_type g")
  case NONE
  then show ?thesis
    using assms enter_security_inv by (simp add: baggage_process_def)
next
  case COUNTER
  then have "begin_stage eng BaggageCounter g s = Inr s'"
    using assms(2) by (simp add: baggage_process_def)
  then show ?thesis by (rule begin_stage_inv[OF assms(1), rotated 2]) simp_all
next
  case SELF
  then have "begin_stage eng TagKiosk g s = Inr s'"
    using assms(2) by (simp add: baggage_process_def)
  then show ?thesis by (rule begin_stage_inv[OF assms(1), rotated 2]) simp_all
qed

lemma after_stage_inv:
  assumes "mid_inv groups gid g (later_stages st) s" and "after_stage eng st g s = Inr s'"
  shows "full_inv groups s'"
proof (cases st)
  case CheckinKiosk
  then show ?thesis using assms baggage_process_inv by simp
next
  case CheckinCounter
  then show ?thesis using assms baggage_process_inv by simp
next
  case BaggageCounter
  then show ?thesis using assms enter_security_inv by simp
next
  case TagKiosk
  then have "begin_stage eng DropPoint g s = Inr s'" using assms(2) by simp
  then show ?thesis
    using assms(1) TagKiosk by (intro begin_stage_inv[where st = DropPoint and sts = "[DropPoint]"]) simp_all
next
  case DropPoint
  then show ?thesis using assms enter_security_inv by simp
qed


lemma leave_area_set_station:
  "groups_in_area (leave_area t z gid (set_station st m res)) = groups_in_area (leave_area t z gid res)"
  "area_occupancy_history (leave_area t z gid (set_station st m res))
     = area_occupancy_history (leave_area t z gid res)"
  by (cases "groups_in_area res z"; simp add: leave_area_def record_area_occupancy_def)+

lemma core_group_id: "core g = core g' \<Longrightarrow> group_id g = group_id g'"
  by (simp add: core_def)

lemma mid_inv_from_full:
  assumes f: "full_inv groups s" and p: "procs s gid = Some p" and nf: "at_yield p \<noteq> Finished"
    and same: "procs s1 = procs s" "now s1 = now s" "completed s1 = completed s"
      "arrival s1 = arrival s"
    and rd: "ready (now s) sts g" and co: "core g = core (the_group p)"
    and ar: "areas_inv ((zones s)(gid := None)) (resources s1) (area_log s1)"
  shows "mid_inv groups gid g sts s1"
proof -
  note fp = full_inv_parts[OF f p]
  have e: "group_id (the_group p) = gid" "core (the_group p) \<in> core ` set groups"
    using fp(5) by (simp_all add: entry_ok_def)
  have z: "zones s1 = zones s" using same(1) by (rule zones_cong)
  have c: "completed_ok s1" using fp(2) same unfolding completed_ok_def by simp
  have pe: "pending_ok groups s1" using fp(3) same unfolding pending_ok_def by simp
  show ?thesis
    unfolding mid_inv_def z same
    using fp(1) fp(6)[OF nf] c pe rd co e ar p core_group_id[OF co]
    by simp
qed

lemma group_resume_inv:
  assumes f: "full_inv groups s" and r: "group_resume eng gid s = Inr s'"
  shows "full_inv groups s'"
proof (cases "procs s gid")
  case None
  then show ?thesis using f r by (simp add: group_resume_def)
next
  case (Some p)
  note fp = full_inv_parts[OF f Some]
  have gi: "group_inv (now s) (at_yield p) (the_group p)" and id: "group_id (the_group p) = gid"
    and co: "core (the_group p) \<in> core ` set groups"
    using fp(5) by (simp_all add: entry_ok_def)
  show ?thesis
  proof (cases "at_yield p")
    case AtStart
    let ?s1 = "s\<lparr>active_groups := (if gid \<in> set (active_groups s) then active_groups s
                                      else active_groups s @ [gid])\<rparr>"
    let ?g = "update_position (nodes eng) ''source'' (the_group p)"
    have z: "(zones s)(gid := None) = zones s"
      using fp(8) AtStart by (auto simp: fun_eq_iff)
    have mid: "mid_inv groups gid ?g sts ?s1" for sts
      by (rule mid_inv_from_full[OF f Some])
         (use AtStart z fp(7) waiting_ready[OF gi, of "now s" sts] in simp_all)
    show ?thesis
    proof (cases "checkin_type ?g")
      case ONLINE
      then have s': "s' = schedule NORMAL 5 (Resume (GroupProc gid)) (set_proc gid OnlineDelay ?g ?s1)"
        using r Some AtStart by (simp add: group_resume_def Let_def timeout_Inr)
      have en: "entry_ok groups (now s) gid \<lparr>at_yield = OnlineDelay, the_group = ?g\<rparr>"
        using at_start_online[of "now s" "the_group p"] gi AtStart id co by (simp add: entry_ok_def)
      have ar: "areas_inv ((zones s)(gid := zone_of OnlineDelay)) (resources s') (area_log s')"
        using fp(7) z by (simp add: s')
      show ?thesis
        by (rule update_entry_full[OF fp(1,2,3,4) _ _ _ _ en ar])
           (use fp(6) AtStart in \<open>simp_all add: s'\<close>)
    next
      case KIOSK
      then have "begin_stage eng CheckinKiosk ?g ?s1 = Inr s'"
        using r Some AtStart by (simp add: group_resume_def Let_def)
      then show ?thesis
        by (rule begin_stage_inv[OF mid[of "[CheckinKiosk, BaggageCounter, TagKiosk, DropPoint]"],
              rotated 2]) simp_all
    next
      case COUNTER
      then have "begin_stage eng CheckinCounter ?g ?s1 = Inr s'"
        using r Some AtStart by (simp add: group_resume_def Let_def)
      then show ?thesis
        by (rule begin_stage_inv[OF mid[of "[CheckinCounter, BaggageCounter, TagKiosk, DropPoint]"],
              rotated 2]) simp_all
    qed
  next
    case OnlineDelay
    let ?g = "update_position (nodes eng) ''checkin_kiosk'' (the_group p)"
    have z: "(zones s)(gid := None) = zones s"
      using fp(8) OnlineDelay by (auto simp: fun_eq_iff)
    have mid: "mid_inv groups gid ?g [BaggageCounter, TagKiosk, DropPoint] s"
      by (rule mid_inv_from_full[OF f Some])
         (use OnlineDelay z fp(7)
            waiting_ready[OF gi, of "now s" "[BaggageCounter, TagKiosk, DropPoint]"] in simp_all)
    have "baggage_process eng ?g s = Inr s'"
      using r Some OnlineDelay by (simp add: group_resume_def)
    then show ?thesis by (rule baggage_process_inv[OF mid])
  next
    case (Requesting st)
    let ?g = "set_start st (now s) (the_group p)"
    obtain d np' where s': "s' = schedule NORMAL d (Resume (GroupProc gid))
                              (set_proc gid (InService st) ?g (s\<lparr>np_state := np'\<rparr>))"
      using r Some Requesting
      by (auto simp: group_resume_def Let_def timeout_Inr split: sum.splits prod.splits)
    have en: "entry_ok groups (now s) gid \<lparr>at_yield = InService st, the_group = ?g\<rparr>"
      using requesting_start[of "now s" st "the_group p" "now s"] gi Requesting id co
      by (simp add: entry_ok_def)
    have z: "(zones s)(gid := zone_of (InService st)) = zones s"
      using fp(8) Requesting by (auto simp: fun_eq_iff)
    have ar: "areas_inv ((zones s)(gid := zone_of (InService st))) (resources s') (area_log s')"
      using fp(7) unfolding z by (simp add: s')
    show ?thesis
      by (rule update_entry_full[OF fp(1,2,3,4) _ _ _ _ en ar])
         (use fp(6) Requesting in \<open>simp_all add: s'\<close>)
  next
    case (InService st)
    let ?g = "set_end st (now s) (the_group p)"
    let ?m = "release (now s) (get_station st (resources s)) gid"
    let ?s2 = "schedule NORMAL 0 (StationRelease st)
                 (s\<lparr>resources := set_station st ?m (resources s)\<rparr>)"
    let ?s3 = "do_leave_area (stage_area st) ?g ?s2"
    have a: "after_stage eng st ?g ?s3 = Inr s'"
      using r Some InService by (simp add: group_resume_def Let_def)
    have rd: "ready (now s) (later_stages st) ?g"
      using in_service_end[of "now s" st "the_group p" "now s"] gi InService by simp
    have A: "areas_inv ((zones s)(gid := None))
            (leave_area (now s) (stage_area st) gid (resources s))
            (area_log s @ [Leave (stage_area st) gid])"
      using areas_inv_leave[OF fp(7) _ stage_area_known, of gid st] fp(8) InService by simp
    have res3: "resources ?s3
                  = leave_area (now s) (stage_area st) gid (set_station st ?m (resources s))"
      and log3: "area_log ?s3 = area_log s @ [Leave (stage_area st) gid]"
      using id by simp_all
    have ar: "areas_inv ((zones s)(gid := None)) (resources ?s3) (area_log ?s3)"
      unfolding res3 log3
      by (subst areas_inv_cong[OF leave_area_set_station]) (rule A)
    have mid: "mid_inv groups gid ?g (later_stages st) ?s3"
      by (rule mid_inv_from_full[OF f Some _ _ _ _ _ rd _ ar])
         (use InService in simp_all)
    show ?thesis by (rule after_stage_inv[OF mid a])
  next
    case SecurityDelay
    let ?g = "(the_group p)\<lparr>security_arrival := Some (now s)\<rparr>"
    let ?s1 = "do_leave_area ''security_front'' ?g s"
    have s': "s' = schedule NORMAL 0 (ProcessEnd (GroupProc gid))
                     (set_proc gid Finished ?g
                        (?s1\<lparr>completed := completed ?s1 @ [gid],
                              active_groups := remove1 gid (active_groups ?s1)\<rparr>))"
      using r Some SecurityDelay by (simp add: group_resume_def Let_def)
    have en: "entry_ok groups (now s) gid \<lparr>at_yield = Finished, the_group = ?g\<rparr>"
      using security_finish[of "now s" "the_group p" "now s"] gi SecurityDelay id co
      by (simp add: entry_ok_def)
    have A: "areas_inv ((zones s)(gid := None))
            (leave_area (now s) ''security_front'' gid (resources s))
            (area_log s @ [Leave ''security_front'' gid])"
      using areas_inv_leave[OF fp(7) _ security_front_known, of gid] fp(8) SecurityDelay by simp
    have ar: "areas_inv ((zones s)(gid := zone_of Finished)) (resources s') (area_log s')"
      using A id by (simp add: s')
    show ?thesis
      by (rule update_entry_full[OF fp(1,2,3,4) _ _ _ _ en ar]) (simp_all add: s')
  next
    case Finished
    then show ?thesis using f r Some by (simp add: group_resume_def)
  qed
qed

lemma sampler_resume_inv:
  assumes "full_inv groups s" "sampler_resume iv e s = Inr s'"
  shows "full_inv groups s'"
proof (cases "now s < e")
  case True
  then have "s' = schedule NORMAL iv (Resume SamplerProc)
                    (s\<lparr>position_snapshots := position_snapshots s @ [snapshot_of s]\<rparr>)"
    using assms(2) by (simp add: sampler_resume_def timeout_Inr)
  then have "full_inv groups s' = full_inv groups s"
    by (intro full_inv_cong) simp_all
  then show ?thesis using assms(1) by simp
next
  case False
  then have "s' = schedule NORMAL 0 (ProcessEnd SamplerProc) s"
    using assms(2) by (simp add: sampler_resume_def)
  then have "full_inv groups s' = full_inv groups s"
    by (intro full_inv_cong) simp_all
  then show ?thesis using assms(1) by simp
qed

lemma station_release_inv:
  assumes "full_inv groups s"
  shows "full_inv groups (schedule_grant gr (s\<lparr>resources := set_station st m (resources s)\<rparr>))"
proof -
  have "full_inv groups (schedule_grant gr (s\<lparr>resources := set_station st m (resources s)\<rparr>))
          = full_inv groups s"
    by (intro full_inv_cong) simp_all
  then show ?thesis using assms by simp
qed

section \<open>The arrival process\<close>

lemma full_inv_spawn_inv: "full_inv groups s = spawn_inv groups (pending (arrival s)) s"
  by (auto simp: full_inv_def procs_inv_def pending_ok_def spawn_inv_def)

lemma arrival_events_other:
  "ev \<noteq> Resume ArrivalProc \<Longrightarrow> arrival_events (insort_key fst (k, ev) q) = arrival_events q"
  by (simp add: arrival_events_def filter_insort_triv)

lemma arrival_events_first:
  "arrival_events q = [] \<Longrightarrow> arrival_events (insort_key fst (k, Resume ArrivalProc) q) = [k]"
  by (induction q) (auto simp: arrival_events_def split: if_splits)

lemma spawn_keeps:
  assumes inv: "spawn_inv groups (g # rest) s" and t: "arrival_time g \<le> now s"
  shows "spawn_inv groups rest (spawn g s)"
proof -
  let ?gid = "group_id g"
  have g: "pristine g" "g \<in> set groups" "procs s ?gid = None"
    and rest: "distinct (map group_id rest)" "\<forall>h \<in> set rest. group_id h \<noteq> ?gid"
      "\<forall>h \<in> set rest. pristine h \<and> h \<in> set groups \<and> procs s (group_id h) = None"
    and ent: "\<forall>gid p. procs s gid = Some p \<longrightarrow> entry_ok groups (now s) gid p"
    and co: "completed_ok s"
    and ar: "areas_inv (zones s) (resources s) (area_log s)"
    using inv by (auto simp: spawn_inv_def) (metis image_eqI)
  have e: "entry_ok groups (now s) ?gid \<lparr>at_yield = AtStart, the_group = g\<rparr>"
    using g t by (simp add: entry_ok_def pristine_group_inv)
  have z: "zones (spawn g s) = zones s"
    using g(3) by (auto simp: zones_def spawn_def fun_eq_iff)
  have c: "completed_ok (spawn g s)"
    using co g(3) unfolding completed_ok_def by (auto simp: spawn_def)
  show ?thesis
    unfolding spawn_inv_def z
    using ent e rest c ar by (auto simp: spawn_def)
qed

lemma spawn_grows: "ok (Resume (GroupProc (group_id g))) \<Longrightarrow> grows ok s (spawn g s)"
  by (auto simp: spawn_def intro!: grows_intros)

lemma spawn_fields [simp]:
  "now (spawn g s) = now s" "arrival (spawn g s) = arrival s"
  "arrival_events (event_queue (spawn g s)) = arrival_events (event_queue s)"
  by (simp_all add: spawn_def arrival_events_other)

lemma arrival_loop_inv:
  assumes "arrival_loop gs lst s = Inr s'"
    and "spawn_inv groups gs s" and "lst \<le> now s"
    and "arrival_events (event_queue s) = []"
  shows "full_inv groups s' \<and> grows (\<lambda>ev. ev \<noteq> Until) s s' \<and> arrival_link s'"
  using assms
proof (induction gs arbitrary: lst s)
  case Nil
  have s': "s' = schedule NORMAL 0 (ProcessEnd ArrivalProc) (s\<lparr>arrival := ArrivalDone\<rparr>)"
    using Nil.prems(1) by simp
  have z: "zones s' = zones s" unfolding s' by (rule zones_cong) simp
  have "full_inv groups s'"
    unfolding full_inv_spawn_inv using Nil.prems(2) z
    by (simp add: s' spawn_inv_def completed_ok_def)
  moreover have "grows (\<lambda>ev. ev \<noteq> Until) s s'"
    unfolding s' by (auto intro!: grows_intros)
  moreover have "arrival_link s'"
    using Nil.prems(4) by (simp add: s' arrival_link_def arrival_events_other)
  ultimately show ?case by blast
next
  case (Cons g rest)
  show ?case
  proof (cases "arrival_time g - lst > 0")
    case True
    let ?w = "arrival_time g - lst"
    have s': "s' = schedule NORMAL ?w (Resume ArrivalProc) (s\<lparr>arrival := ArrivalWaiting g rest\<rparr>)"
      using Cons.prems(1) True by (simp add: Let_def timeout_Inr)
    have z: "zones s' = zones s" unfolding s' by (rule zones_cong) simp
    have "full_inv groups s'"
      unfolding full_inv_spawn_inv using Cons.prems(2) z
      by (simp add: s' spawn_inv_def completed_ok_def)
    moreover have "grows (\<lambda>ev. ev \<noteq> Until) s s'"
      unfolding s' using True by (auto intro!: grows_intros)
    moreover have "arrival_link s'"
      using Cons.prems(3,4) by (simp add: s' arrival_link_def arrival_events_first)
    ultimately show ?thesis by blast
  next
    case False
    then have t: "arrival_time g \<le> now s" using Cons.prems(3) by simp
    have rec: "arrival_loop rest (arrival_time g) (spawn g s) = Inr s'"
      using Cons.prems(1) False by (simp add: Let_def)
    have i: "spawn_inv groups rest (spawn g s)"
      using spawn_keeps[OF Cons.prems(2) t] .
    have "full_inv groups s' \<and> grows (\<lambda>ev. ev \<noteq> Until) (spawn g s) s' \<and> arrival_link s'"
      by (rule Cons.IH[OF rec i]) (use t Cons.prems(4) in simp_all)
    moreover have "grows (\<lambda>ev. ev \<noteq> Until) s (spawn g s)"
      by (rule spawn_grows) simp
    ultimately show ?thesis by (blast intro: grows_trans)
  qed
qed

lemma arrival_resume_inv:
  assumes r: "arrival_resume s = Inr s'" and f: "full_inv groups s"
    and n: "0 \<le> now s" and a: "arrival_events (event_queue s) = []"
    and w: "case arrival s of ArrivalWaiting g rest \<Rightarrow> arrival_time g \<le> now s | _ \<Rightarrow> True"
  shows "full_inv groups s' \<and> grows (\<lambda>ev. ev \<noteq> Until) s s' \<and> arrival_link s'"
proof (cases "arrival s")
  case (ArrivalInit gs)
  then have "arrival_loop gs 0 s = Inr s'" using r by (simp add: arrival_resume_def)
  then show ?thesis
    by (rule arrival_loop_inv) (use f n a ArrivalInit in \<open>simp_all add: full_inv_spawn_inv\<close>)
next
  case (ArrivalWaiting g rest)
  then have rec: "arrival_loop rest (arrival_time g) (spawn g s) = Inr s'"
    using r by (simp add: arrival_resume_def)
  have t: "arrival_time g \<le> now s" using w ArrivalWaiting by simp
  have i: "spawn_inv groups rest (spawn g s)"
    by (rule spawn_keeps[OF _ t]) (use f ArrivalWaiting in \<open>simp add: full_inv_spawn_inv\<close>)
  have "full_inv groups s' \<and> grows (\<lambda>ev. ev \<noteq> Until) (spawn g s) s' \<and> arrival_link s'"
    by (rule arrival_loop_inv[OF rec i]) (use t a in simp_all)
  moreover have "grows (\<lambda>ev. ev \<noteq> Until) s (spawn g s)"
    by (rule spawn_grows) simp
  ultimately show ?thesis by (blast intro: grows_trans)
next
  case ArrivalDone
  then have "s' = s" using r by (simp add: arrival_resume_def)
  then show ?thesis using f a ArrivalDone by (simp add: arrival_link_def)
qed

section \<open>The scheduler loop keeps the invariant\<close>

lemma grows_queue_base:
  assumes "queue_base e s" "grows ok s s'" "\<And>ev. ok ev \<Longrightarrow> ev \<noteq> Until"
  shows "queue_base e s'"
proof -
  have n: "now s' = now s" and g: "queue_grows (now s) ok (event_queue s) (event_queue s')"
    using assms(2) by (simp_all add: grows_def)
  have b: "0 \<le> now s" "sorted (map fst (event_queue s))"
    "\<forall>ke \<in> set (event_queue s). now s \<le> fst (fst ke)"
    "\<exists>k. (k, Until) \<in> set (event_queue s)"
    "\<forall>ke \<in> set (event_queue s). snd ke = Until \<longrightarrow> fst (fst ke) = e"
    using assms(1) by (simp_all add: queue_base_def)
  have 1: "sorted (map fst (event_queue s'))"
    using queue_grows_sorted[OF g b(2)] .
  have 2: "\<forall>ke \<in> set (event_queue s'). now s \<le> fst (fst ke)"
    using queue_grows_set[OF g] b(3) by blast
  have 3: "\<exists>k. (k, Until) \<in> set (event_queue s')"
    using queue_grows_subset[OF g] b(4) by blast
  have 4: "\<forall>ke \<in> set (event_queue s'). snd ke = Until \<longrightarrow> fst (fst ke) = e"
    using queue_grows_set[OF g] b(5) assms(3) by blast
  show ?thesis
    using b(1) n 1 2 3 4 by (simp add: queue_base_def)
qed

lemma arrival_link_cong:
  "arrival s' = arrival s \<Longrightarrow> arrival_events (event_queue s') = arrival_events (event_queue s) \<Longrightarrow>
   arrival_link s' = arrival_link s"
  by (cases "arrival s") (simp_all add: arrival_link_def)

lemma quiet_arrival_link: "arrival_link s \<Longrightarrow> quiet s s' \<Longrightarrow> arrival_link s'"
  using queue_grows_arrival_events[of "now s" "event_queue s" "event_queue s'"]
        arrival_link_cong[of s' s]
  by (simp add: quiet_def grows_def)

lemma quiet_queue_inv: "queue_inv e s \<Longrightarrow> quiet s s' \<Longrightarrow> queue_inv e s'"
  using grows_queue_base[of e s _ s'] quiet_arrival_link[of s s']
  by (auto simp: queue_inv_def quiet_def)

lemma fire_other:
  assumes "fire eng e ev s = Inr s'" "ev \<noteq> Resume ArrivalProc" "ev \<noteq> Until"
  shows "quiet s s' \<and> (full_inv groups s \<longrightarrow> full_inv groups s')"
proof (cases ev)
  case (Resume p)
  show ?thesis
  proof (cases p)
    case ArrivalProc
    then show ?thesis using assms(2) Resume by simp
  next
    case SamplerProc
    then show ?thesis
      using assms(1) Resume sampler_resume_grows sampler_resume_inv by auto
  next
    case (GroupProc gid)
    then show ?thesis
      using assms(1) Resume group_resume_grows group_resume_inv by auto
  qed
next
  case (StationRelease st)
  then have "s' = schedule_grant (snd (release_event (get_station st (resources s))))
                    (s\<lparr>resources := set_station st
                         (fst (release_event (get_station st (resources s)))) (resources s)\<rparr>)"
    using assms(1) by (simp add: split_beta)
  then show ?thesis
    using station_release_grows station_release_inv by simp
next
  case (ProcessEnd p)
  then show ?thesis using assms(1) by auto
next
  case Until
  then show ?thesis using assms(3) by simp
qed

lemma key_order: "(k :: real \<times> nat \<times> nat) \<le> k' \<Longrightarrow> fst k \<le> fst k'"
  by (auto simp: less_eq_prod_def)

text \<open>Taking the first event off the queue and moving the clock to it.\<close>

lemma pop_queue_base:
  assumes "queue_base e s" "event_queue s = (key, ev) # rest"
  shows "now s \<le> fst key"
    and "0 \<le> fst key"
    and "sorted (map fst rest)"
    and "\<forall>ke \<in> set rest. fst key \<le> fst (fst ke)"
    and "\<forall>ke \<in> set rest. snd ke = Until \<longrightarrow> fst (fst ke) = e"
    and "ev = Until \<Longrightarrow> fst key = e"
    and "ev \<noteq> Until \<Longrightarrow> \<exists>k. (k, Until) \<in> set rest"
    and "fst key \<le> e"
proof -
  have b: "0 \<le> now s" "sorted (map fst ((key, ev) # rest))"
    "\<forall>ke \<in> set ((key, ev) # rest). now s \<le> fst (fst ke)"
    "\<exists>k. (k, Until) \<in> set ((key, ev) # rest)"
    "\<forall>ke \<in> set ((key, ev) # rest). snd ke = Until \<longrightarrow> fst (fst ke) = e"
    using assms by (simp_all add: queue_base_def)
  show 1: "now s \<le> fst key" using b(3) by simp
  then show "0 \<le> fst key" using b(1) by simp
  show "sorted (map fst rest)" using b(2) by simp
  show 4: "\<forall>ke \<in> set rest. fst key \<le> fst (fst ke)"
    using b(2) by (auto intro: key_order)
  show "\<forall>ke \<in> set rest. snd ke = Until \<longrightarrow> fst (fst ke) = e" using b(5) by simp
  show "ev = Until \<Longrightarrow> fst key = e" using b(5) by simp
  show "ev \<noteq> Until \<Longrightarrow> \<exists>k. (k, Until) \<in> set rest" using b(4) by auto
  show "fst key \<le> e"
  proof -
    obtain k where k: "(k, Until) \<in> set ((key, ev) # rest)" using b(4) by blast
    then have "fst k = e" using b(5) by force
    moreover have "fst key \<le> fst k" using k 4 by force
    ultimately show ?thesis by simp
  qed
qed

lemma step_inv:
  assumes inv: "run_inv e groups s" and q: "event_queue s = (key, ev) # rest"
    and nu: "ev \<noteq> Until"
    and f: "fire eng e ev (s\<lparr>now := fst key, event_queue := rest\<rparr>) = Inr s2"
  shows "run_inv e groups s2"
proof -
  let ?s1 = "s\<lparr>now := fst key, event_queue := rest\<rparr>"
  have fi: "full_inv groups s" and qb: "queue_base e s" and al: "arrival_link s"
    using inv by (simp_all add: run_inv_def queue_inv_def)
  note pq = pop_queue_base[OF qb q]
  have f1: "full_inv groups ?s1" using full_inv_later[OF fi pq(1)] .
  have qb1: "queue_base e ?s1"
    using pq(2,3,4,5) pq(7)[OF nu] by (simp add: queue_base_def)
  show ?thesis
  proof (cases "ev = Resume ArrivalProc")
    case False
    have "arrival_events rest = arrival_events (event_queue s)"
      using q False by (simp add: arrival_events_def)
    then have al1: "arrival_link ?s1" using al arrival_link_cong[of ?s1 s] by simp
    have "quiet ?s1 s2 \<and> (full_inv groups ?s1 \<longrightarrow> full_inv groups s2)"
      using fire_other[OF f False nu] .
    then show ?thesis
      using f1 qb1 al1 quiet_queue_inv[of e ?s1 s2] by (simp add: run_inv_def queue_inv_def)
  next
    case True
    have ae: "arrival_events (event_queue s) = key # arrival_events rest"
      using q True by (simp add: arrival_events_def)
    have a0: "arrival_events (event_queue ?s1) = []"
      using al ae by (cases "arrival s") (simp_all add: arrival_link_def)
    have w: "case arrival ?s1 of ArrivalWaiting g rest \<Rightarrow> arrival_time g \<le> now ?s1 | _ \<Rightarrow> True"
      using al ae by (cases "arrival s") (simp_all add: arrival_link_def)
    have r: "arrival_resume ?s1 = Inr s2" using f True by simp
    have "full_inv groups s2 \<and> grows (\<lambda>ev. ev \<noteq> Until) ?s1 s2 \<and> arrival_link s2"
      by (rule arrival_resume_inv[OF r f1 _ a0 w]) (use pq(2) in simp)
    then show ?thesis
      using grows_queue_base[OF qb1, of "\<lambda>ev. ev \<noteq> Until" s2]
      by (simp add: run_inv_def queue_inv_def)
  qed
qed

text \<open>What a run that reaches the horizon ends in.\<close>

lemma run_loop_inv:
  assumes "run_loop fuel eng e s = Some (Inr s')" "run_inv e groups s"
  shows "full_inv groups s' \<and> now s' = e"
  using assms
proof (induction fuel arbitrary: s)
  case 0
  then show ?case by simp
next
  case (Suc fuel)
  have qb: "queue_base e s" and fi: "full_inv groups s"
    using Suc.prems(2) by (simp_all add: run_inv_def queue_inv_def)
  show ?case
  proof (cases "event_queue s")
    case Nil
    then show ?thesis using Suc.prems(1) by simp
  next
    case (Cons a rest)
    obtain key ev where a: "a = (key, ev)" by (cases a)
    have q: "event_queue s = (key, ev) # rest" using Cons a by simp
    note pq = pop_queue_base[OF qb q]
    let ?s1 = "s\<lparr>now := fst key, event_queue := rest\<rparr>"
    show ?thesis
    proof (cases "ev = Until")
      case True
      then have "s' = ?s1" using Suc.prems(1) q by (simp add: Let_def)
      then show ?thesis using full_inv_later[OF fi pq(1)] pq(6)[OF True] by simp
    next
      case False
      then obtain s2 where f: "fire eng e ev ?s1 = Inr s2"
        and r: "run_loop fuel eng e s2 = Some (Inr s')"
        using Suc.prems(1) q by (cases "fire eng e ev ?s1") (auto simp: Let_def)
      show ?thesis
        by (rule Suc.IH[OF r step_inv[OF Suc.prems(2) q False f]])
    qed
  qed
qed

section \<open>A whole run\<close>

lemma initial_areas_empty: "initial_areas z = Some members \<Longrightarrow> members = []"
  by (auto simp: initial_areas_def split: if_splits)

lemma start_sim_inv:
  assumes e: "0 < e" and d: "distinct (map group_id groups)" and p: "\<forall>g \<in> set groups. pristine g"
    and r: "groups_in_area res = initial_areas" "area_occupancy_history res = []"
  shows "run_inv e groups (start_sim res groups g e)"
proof -
  let ?s = "start_sim res groups g e"
  have q: "event_queue ?s = [((0, 0, 0), Resume ArrivalProc), ((0, 0, 1), Resume SamplerProc),
                            ((e, 0, 2), Until)]"
    using e by (simp add: start_sim_def initial_sim_def schedule_def URGENT_def Let_def)
  have f: "now ?s = 0" "procs ?s = Map.empty" "completed ?s = []" "arrival ?s = ArrivalInit groups"
    "resources ?s = res" "area_log ?s = []"
    by (simp_all add: start_sim_def initial_sim_def Let_def)
  have z: "zones ?s = (\<lambda>gid. None)"
    by (simp add: zones_def f fun_eq_iff)
  have a: "areas_inv (zones ?s) (resources ?s) (area_log ?s)"
    unfolding z f areas_inv_def
  proof (intro conjI allI impI)
    fix z members assume "groups_in_area res z = Some members"
    then have m: "members = []" using r(1) initial_areas_empty by simp
    show "distinct (map fst members)" using m by simp
    show "set (map fst members) = {gid. None = Some z}" using m by simp
    show "enters z [] = leaves z [] + length members"
      using m by (simp add: enters_def leaves_def)
  qed (use r in simp_all)
  have fi: "full_inv groups ?s"
    using a d p by (simp add: full_inv_def procs_inv_def completed_ok_def pending_ok_def f)
  have qb: "queue_base e ?s"
    using e by (simp add: queue_base_def q f)
  have al: "arrival_link ?s"
    by (simp add: arrival_link_def f q arrival_events_def)
  show ?thesis using fi qb al by (simp add: run_inv_def queue_inv_def)
qed

lemma run_setup_resources:
  assumes "run_setup eng amb = Inr (res, gen, g)"
  shows "groups_in_area res = initial_areas \<and> area_occupancy_history res = []
       \<and> next_group_id (group_factory gen) = 0"
  using assms
  by (auto simp: run_setup_def Let_def AirportResources_init_cases
        PassengerGroupFactory_init_def ArrivalGenerator_init_def
           split: if_splits sum.splits)

text \<open>The final state of a run that reached the horizon satisfies the invariant, for
  the groups that were generated, and its clock shows the horizon.\<close>

lemma run_sim_final:
  assumes "run_sim fuel eng demand_slots amb = Some (Inr (Some s))"
  shows "\<exists>res gen g groups st'.
           run_setup eng amb = Inr (res, gen, g)
         \<and> generate_all_arrivals demand_slots (gen, g, py_ambient amb) = Some (Inr (groups, st'))
         \<and> groups \<noteq> [] \<and> distinct (map group_id groups)
         \<and> full_inv groups s \<and> now s = Max (set (map departure_time groups)) + 3600"
proof -
  obtain res gen g where su: "run_setup eng amb = Inr (res, gen, g)"
    using assms by (cases "run_setup eng amb") (auto simp: run_sim_def)
  obtain groups st' where ge:
    "generate_all_arrivals demand_slots (gen, g, py_ambient amb) = Some (Inr (groups, st'))"
    using assms su
    by (cases "generate_all_arrivals demand_slots (gen, g, py_ambient amb)")
       (auto simp: run_sim_def split: sum.splits)
  obtain gen' g' py' where st': "st' = (gen', g', py')" by (cases st') auto
  have ne: "groups \<noteq> []" and si: "simulate fuel eng res groups g' = Some (Inr s)"
    using assms su ge st' by (auto simp: run_sim_def split: if_splits option.splits sum.splits)
  let ?e = "Max (set (map departure_time groups)) + 3600"
  have pos: "0 < ?e" and rl: "run_loop fuel eng ?e (start_sim res groups g' ?e) = Some (Inr s)"
    using si by (auto simp: simulate_def Let_def split: if_splits)
  note fr = generated_groups_fresh[OF ge]
  note rs = run_setup_resources[OF su]
  have "run_inv ?e groups (start_sim res groups g' ?e)"
    by (rule start_sim_inv[OF pos]) (use fr rs in simp_all)
  from run_loop_inv[OF rl this] show ?thesis using su ge ne fr by blast
qed

lemma run_cases:
  assumes "run fuel eng demand_slots amb = Some (Inr r)"
  shows "run_sim fuel eng demand_slots amb = Some (Inr None) \<and> r = empty_result (config eng)
       \<or> (\<exists>s. run_sim fuel eng demand_slots amb = Some (Inr (Some s)) \<and> r = collect_results eng s)"
  using assms by (auto simp: run_def split: option.splits sum.splits)

lemma completed_group_entry:
  assumes "full_inv groups s" "c \<in> set (groups_of s (completed s))"
  shows "\<exists>gid p. procs s gid = Some p \<and> the_group p = c \<and> at_yield p = Finished
               \<and> entry_ok groups (now s) gid p"
proof -
  obtain gid where gid: "gid \<in> set (completed s)"
    and c: "c \<in> set (case procs s gid of None \<Rightarrow> [] | Some p \<Rightarrow> [the_group p])"
    using assms(2) by (auto simp: groups_of_def)
  obtain p where p: "procs s gid = Some p" "at_yield p = Finished"
    using assms(1) gid by (auto simp: full_inv_def procs_inv_def completed_ok_def)
  have "entry_ok groups (now s) gid p"
    using assms(1) p by (auto simp: full_inv_def procs_inv_def)
  then show ?thesis using p c by auto
qed

section \<open>Errors of the scheduler\<close>












section \<open>Timestamps of completed groups\<close>

lemma completed_group_inv:
  assumes "run fuel eng demand_slots amb = Some (Inr r)" "c \<in> set (completed_groups r)"
  shows "group_inv (simulation_duration_sec r) Finished c"
proof -
  from run_cases[OF assms(1)] assms(2) obtain s where
    s: "run_sim fuel eng demand_slots amb = Some (Inr (Some s))" and r: "r = collect_results eng s"
    by (auto simp: empty_result_def)
  from run_sim_final[OF s] obtain groups where fi: "full_inv groups s" by blast
  have "c \<in> set (groups_of s (completed s))"
    using assms(2) r by (simp add: collect_results_def)
  from completed_group_entry[OF fi this] show ?thesis
    using r by (auto simp: entry_ok_def collect_results_def)
qed

text \<open>
  C9. Every group that \<open>run\<close> returns in \<open>completed_groups\<close> has, at every
  station, timestamps in order: a service end comes with a service start not after it,
  and a service start with a queue entry not after it.
\<close>

theorem completed_timestamps_ordered:
  assumes "run fuel eng demand_slots amb = Some (Inr r)" "g \<in> set (completed_groups r)"
  shows "stamps_ordered (stage_stamps st g)"
proof -
  have "stamps_ok (simulation_duration_sec r) g"
    using completed_group_inv[OF assms] by (simp add: group_inv_def)
  then show ?thesis
    by (cases st) (simp_all add: stamps_ok_def)
qed

text \<open>A passenger who checks in at a kiosk, prints a tag and drops a bag.\<close>

theorem completed_timestamps_ordered_witness:
  "\<exists>r g. run 40 seeded_engine one_passenger (const_ambient (9 / 20)) = Some (Inr r)
        \<and> completed_groups r = [g]
        \<and> stage_stamps CheckinKiosk g = (Some 300, Some 300, Some 370)
        \<and> stage_stamps TagKiosk g = (Some 370, Some 370, Some 415)
        \<and> stage_stamps DropPoint g = (Some 415, Some 415, Some 535)
        \<and> (\<forall>st. stamps_ordered (stage_stamps st g))"
proof -
  have "case run 40 seeded_engine one_passenger (const_ambient (9 / 20)) of
          Some (Inr r) \<Rightarrow>
            map (\<lambda>g. (stage_stamps CheckinKiosk g, stage_stamps TagKiosk g,
                      stage_stamps DropPoint g)) (completed_groups r)
            = [((Some 300, Some 300, Some 370), (Some 370, Some 370, Some 415),
                (Some 415, Some 415, Some 535))]
        | _ \<Rightarrow> False"
    by code_simp
  then obtain r g where r: "run 40 seeded_engine one_passenger (const_ambient (9 / 20)) = Some (Inr r)"
    and g: "completed_groups r = [g]"
      "stage_stamps CheckinKiosk g = (Some 300, Some 300, Some 370)"
      "stage_stamps TagKiosk g = (Some 370, Some 370, Some 415)"
      "stage_stamps DropPoint g = (Some 415, Some 415, Some 535)"
    by (auto split: option.splits sum.splits)
  have "\<forall>st. stamps_ordered (stage_stamps st g)"
    using completed_timestamps_ordered[OF r, of g] g(1) by simp
  then show ?thesis using r g by blast
qed

section \<open>The scheduler loop ends\<close>









lemma waiting_enter_area [simp]: "waiting (enter_area t a gid gs res) = waiting res"
  by (simp add: enter_area_def record_area_occupancy_def waiting_def split: option.splits)

lemma waiting_leave_area [simp]: "waiting (leave_area t a gid res) = waiting res"
  by (simp add: leave_area_def record_area_occupancy_def waiting_def split: option.splits)



lemma release_waiting [simp]: "put_queue (resource (release t m gid)) = put_queue (resource m)"
  by (simp add: release_def record_snapshot_def resource_release_def Let_def)



lemma remaining_fields [simp]:
  "remaining iv e groups (s\<lparr>area_log := l\<rparr>) = remaining iv e groups s"
  "remaining iv e groups (s\<lparr>active_groups := a\<rparr>) = remaining iv e groups s"
  "remaining iv e groups (s\<lparr>completed := c\<rparr>) = remaining iv e groups s"
  "remaining iv e groups (s\<lparr>np_state := n\<rparr>) = remaining iv e groups s"
  "remaining iv e groups (s\<lparr>position_snapshots := ps\<rparr>) = remaining iv e groups s"
  by (simp_all add: remaining_def)

lemma remaining_resources:
  assumes "waiting r + k = waiting (resources s) + j"
  shows "remaining iv e groups (s\<lparr>resources := r\<rparr>) + k = remaining iv e groups s + j"
  using assms by (simp add: remaining_def)

lemma remaining_do_enter_area [simp]:
  "remaining iv e groups (do_enter_area a g s) = remaining iv e groups s"
  using remaining_resources[of "enter_area (now s) a (group_id g) (group_size g) (resources s)" 0 s 0]
  by (simp add: do_enter_area_def)

lemma remaining_do_leave_area [simp]:
  "remaining iv e groups (do_leave_area a g s) = remaining iv e groups s"
  using remaining_resources[of "leave_area (now s) a (group_id g) (resources s)" 0 s 0]
  by (simp add: do_leave_area_def)


















section \<open>The horizon\<close>

lemma run_sim_generated:
  assumes "run_sim fuel eng demand_slots amb = Some (Inr (Some s))"
  shows "generated eng demand_slots amb \<noteq> []
       \<and> distinct (map group_id (generated eng demand_slots amb))
       \<and> full_inv (generated eng demand_slots amb) s
       \<and> now s = Max (set (map departure_time (generated eng demand_slots amb))) + 3600"
proof -
  from run_sim_final[OF assms] obtain res gen g groups st' where
    h: "run_setup eng amb = Inr (res, gen, g)"
       "generate_all_arrivals demand_slots (gen, g, py_ambient amb) = Some (Inr (groups, st'))"
       "groups \<noteq> []" "distinct (map group_id groups)" "full_inv groups s"
       "now s = Max (set (map departure_time groups)) + 3600"
    by blast
  have "generated eng demand_slots amb = groups"
    using h(1,2) by (simp add: generated_def)
  then show ?thesis using h by simp
qed






section \<open>Areas at the horizon\<close>

text \<open>
  C4 as stated fails. With a check-in kiosk that takes 10000 seconds, the one
  passenger enters the check-in zone at 300 and is still in service at the horizon
  5400: the zone was entered once and never left, and the one occupancy record of the
  run counts one group in it.
\<close>

theorem enters_exceed_leaves_at_horizon:
  "map_option (map_sum id (map_option (\<lambda>s.
       (now s, enters ''checkin_zone'' (area_log s), leaves ''checkin_zone'' (area_log s)))))
     (run_sim 30 slow_engine one_passenger (const_ambient (1 / 2)))
     = Some (Inr (Some (5400, 1, 0)))
 \<and> map_option (map_sum id (\<lambda>r.
       (map (\<lambda>a. (occ_time a, area_name a, group_count a)) (result_area_occupancy_history r),
        map group_id (completed_groups r))))
     (run 30 slow_engine one_passenger (const_ambient (1 / 2)))
     = Some (Inr ([(300, ''checkin_zone'', 1)], []))"
proof (intro conjI)
  show "map_option (map_sum id (map_option (\<lambda>s.
       (now s, enters ''checkin_zone'' (area_log s), leaves ''checkin_zone'' (area_log s)))))
     (run_sim 30 slow_engine one_passenger (const_ambient (1 / 2)))
     = Some (Inr (Some (5400, 1, 0)))"
    by code_simp
  show "map_option (map_sum id (\<lambda>r.
       (map (\<lambda>a. (occ_time a, area_name a, group_count a)) (result_area_occupancy_history r),
        map group_id (completed_groups r))))
     (run 30 slow_engine one_passenger (const_ambient (1 / 2)))
     = Some (Inr ([(300, ''checkin_zone'', 1)], []))"
    by code_simp
qed

text \<open>
  C4 as the code has it. In the final state of a run, the calls of \<open>enter_area\<close>
  for an area exceed the calls of \<open>leave_area\<close> for it by the number of groups
  whose process the horizon stopped while it was registered there (waiting at or
  served by a station of the area, or walking to security); the two numbers agree
  when there is no such group. No occupancy record has a negative group count.
\<close>

theorem area_balance_at_horizon:
  assumes "run_sim fuel eng demand_slots amb = Some (Inr (Some s))"
    and "z \<in> dom initial_areas"
  shows "enters z (area_log s) = leaves z (area_log s) + card {gid. zones s gid = Some z}
       \<and> ((\<forall>gid. zones s gid \<noteq> Some z) \<longrightarrow> enters z (area_log s) = leaves z (area_log s))
       \<and> (\<forall>a \<in> set (result_area_occupancy_history (collect_results eng s)). 0 \<le> group_count a)"
proof -
  have a: "areas_inv (zones s) (resources s) (area_log s)"
    using run_sim_generated[OF assms(1)] by (simp add: full_inv_def)
  then have "z \<in> dom (groups_in_area (resources s))"
    using assms(2) by (simp add: areas_inv_def)
  then obtain members where m: "groups_in_area (resources s) z = Some members"
    by auto
  have d: "distinct (map fst members)"
    and e: "set (map fst members) = {gid. zones s gid = Some z}"
    and b: "enters z (area_log s) = leaves z (area_log s) + length members"
    using a m by (simp_all add: areas_inv_def)
  have "card {gid. zones s gid = Some z} = length members"
    using distinct_card[OF d] e by simp
  then have 1: "enters z (area_log s) = leaves z (area_log s) + card {gid. zones s gid = Some z}"
    using b by simp
  have 2: "(\<forall>gid. zones s gid \<noteq> Some z) \<longrightarrow> enters z (area_log s) = leaves z (area_log s)"
    using 1 by auto
  have 3: "\<forall>a \<in> set (result_area_occupancy_history (collect_results eng s)). 0 \<le> group_count a"
    using a by (simp add: areas_inv_def collect_results_def)
  show ?thesis using 1 2 3 by blast
qed

theorem area_balance_at_horizon_witness:
  "\<exists>s. run_sim 30 slow_engine one_passenger (const_ambient (1 / 2)) = Some (Inr (Some s))
      \<and> ''checkin_zone'' \<in> dom initial_areas
      \<and> enters ''checkin_zone'' (area_log s) = 1 \<and> leaves ''checkin_zone'' (area_log s) = 0
      \<and> card {gid. zones s gid = Some ''checkin_zone''} = 1
      \<and> zones s 0 = Some ''checkin_zone''
      \<and> map group_count (result_area_occupancy_history (collect_results slow_engine s)) = [1]"
proof -
  have "case run_sim 30 slow_engine one_passenger (const_ambient (1 / 2)) of
          Some (Inr (Some s)) \<Rightarrow>
            (enters ''checkin_zone'' (area_log s), leaves ''checkin_zone'' (area_log s),
             zones s 0, map group_count (area_occupancy_history (resources s)))
            = (1, 0, Some ''checkin_zone'', [1])
        | _ \<Rightarrow> False"
    by code_simp
  then obtain s where s: "run_sim 30 slow_engine one_passenger (const_ambient (1 / 2)) = Some (Inr (Some s))"
    and v: "enters ''checkin_zone'' (area_log s) = 1" "leaves ''checkin_zone'' (area_log s) = 0"
      "zones s 0 = Some ''checkin_zone''" "map group_count (area_occupancy_history (resources s)) = [1]"
    by (auto split: option.splits sum.splits)
  have z: "''checkin_zone'' \<in> dom initial_areas" by (simp add: initial_areas_def)
  have "card {gid. zones s gid = Some ''checkin_zone''} = 1"
    using area_balance_at_horizon[OF s z] v by simp
  then show ?thesis using s z v by (auto simp: collect_results_def)
qed

section \<open>No demand\<close>





end
